theory Spec2Isabelle
  imports Main "HOL-Library.AList"
begin

section \<open>Python values, exceptions and dictionaries\<close>

text \<open>
  The block processor of \<^verbatim>\<open>hive/indexer/blocks.py\<close> works on decoded JSON. A JSON value
  is a \<open>pyval\<close>; a Python \<^verbatim>\<open>dict\<close> keeps its keys in insertion order, so it is an
  association list whose first entry for a key is the one that counts. Strings are
  ASCII strings and numbers are integers (the chain's JSON carries amounts as strings).
\<close>

datatype pyval =
    PNone
  | PBool bool
  | PInt int
  | PStr string
  | PList "pyval list"
  | PDict "(string \<times> pyval) list"

text \<open>
  The exceptions of the module, all subclasses of \<^verbatim>\<open>Exception\<close>. \<open>Raised\<close> is any
  exception thrown by a collaborator that is not part of this file (database adapter,
  domain sub-processors, the upstream node).
\<close>

datatype py_error =
    KeyError string
  | TypeError
  | ValueError
  | AttributeError string
  | AssertionError string
  | Raised string

text \<open>\<^verbatim>\<open>d[k]\<close> on a JSON value: only a dict can be subscripted with a string.\<close>

fun subscript :: "pyval \<Rightarrow> string \<Rightarrow> py_error + pyval" where
  "subscript (PDict kvs) k =
     (case map_of kvs k of None \<Rightarrow> Inl (KeyError k) | Some v \<Rightarrow> Inr v)"
| "subscript _ k = Inl TypeError"

subsection \<open>Rendering values: \<^verbatim>\<open>str\<close> and \<^verbatim>\<open>repr\<close>\<close>

definition digit_char :: "nat \<Rightarrow> char" where
  "digit_char d = char_of (48 + d)"

function digits_of :: "nat \<Rightarrow> string" where
  "digits_of n = (if n < 10 then [digit_char n] else digits_of (n div 10) @ [digit_char (n mod 10)])"
  by pat_completeness auto
termination
  by (relation "measure id") auto

definition str_int :: "int \<Rightarrow> string" where
  "str_int i = (if i < 0 then CHR ''-'' # digits_of (nat (- i)) else digits_of (nat i))"

definition hex_char :: "nat \<Rightarrow> char" where
  "hex_char d = (if d < 10 then char_of (48 + d) else char_of (87 + d))"

definition repr_char :: "char \<Rightarrow> char \<Rightarrow> string" where
  "repr_char q c =
     (if c = q \<or> c = CHR 0x5C then [CHR 0x5C, c]
      else if c = CHR 0x09 then [CHR 0x5C, CHR ''t'']
      else if c = CHR 0x0A then [CHR 0x5C, CHR ''n'']
      else if c = CHR 0x0D then [CHR 0x5C, CHR ''r'']
      else if of_char c < (32::nat) \<or> of_char c = (127::nat)
        then [CHR 0x5C, CHR ''x'', hex_char (of_char c div 16), hex_char (of_char c mod 16)]
      else [c])"

definition repr_str :: "string \<Rightarrow> string" where
  "repr_str s =
     (let q = (if CHR 0x27 \<in> set s \<and> CHR 0x22 \<notin> set s then CHR 0x22 else CHR 0x27)
      in q # concat (map (repr_char q) s) @ [q])"

fun join :: "string \<Rightarrow> string list \<Rightarrow> string" where
  "join sep [] = []"
| "join sep [x] = x"
| "join sep (x # y # ys) = x @ sep @ join sep (y # ys)"

fun py_repr :: "pyval \<Rightarrow> string" where
  "py_repr PNone = ''None''"
| "py_repr (PBool b) = (if b then ''True'' else ''False'')"
| "py_repr (PInt i) = str_int i"
| "py_repr (PStr s) = repr_str s"
| "py_repr (PList xs) = ''['' @ join '', '' (map py_repr xs) @ '']''"
| "py_repr (PDict kvs) =
     ''{'' @ join '', '' (map (\<lambda>kv. repr_str (fst kv) @ '': '' @ py_repr (snd kv)) kvs) @ ''}''"

text \<open>\<^verbatim>\<open>str(x)\<close>, which \<^verbatim>\<open>"{}".format(x)\<close> applies: a string is itself, anything else its \<^verbatim>\<open>repr\<close>.\<close>

fun py_str :: "pyval \<Rightarrow> string" where
  "py_str (PStr s) = s"
| "py_str v = py_repr v"

text \<open>\<^verbatim>\<open>"{}/{}".format(a, b)\<close>\<close>

definition format_key :: "pyval \<Rightarrow> pyval \<Rightarrow> string" where
  "format_key a b = py_str a @ ''/'' @ py_str b"

section \<open>Operation counters\<close>

text \<open>
  \<^verbatim>\<open>Blocks.ops_stats\<close> maps an operation type to a count. \<^verbatim>\<open>merge_ops_stats(od1, od2)\<close>
  walks \<^verbatim>\<open>od2.items()\<close> and adds each count into \<^verbatim>\<open>od1\<close>, which it returns; \<^verbatim>\<open>od2\<close> may
  be \<^verbatim>\<open>None\<close>.
\<close>

type_synonym ops_stats = "(string \<times> int) list"

fun merge_items :: "ops_stats \<Rightarrow> (string \<times> int) list \<Rightarrow> ops_stats" where
  "merge_items od1 [] = od1"
| "merge_items od1 ((k, v) # items) =
     merge_items
       (case map_of od1 k of
          Some c \<Rightarrow> AList.update k (c + v) od1
        | None \<Rightarrow> AList.update k v od1)
       items"

definition merge_ops_stats :: "ops_stats \<Rightarrow> ops_stats option \<Rightarrow> ops_stats" where
  "merge_ops_stats od1 od2 = (case od2 of None \<Rightarrow> od1 | Some d \<Rightarrow> merge_items od1 d)"

section \<open>The virtual-operations preparer\<close>

text \<open>An operation or virtual operation: a \<^verbatim>\<open>{type, value}\<close> record of the block schema.\<close>

record operation =
  op_type :: string
  op_value :: pyval

text \<open>
  An entry \<^verbatim>\<open>{op_type: val}\<close> of \<^verbatim>\<open>comment_payout_ops[key]\<close>; \<^verbatim>\<open>val\<close> is a dict literal.
\<close>

type_synonym payout_entry = "string \<times> (string \<times> pyval) list"
type_synonym payout_ops = "(string \<times> payout_entry list) list"
type_synonym vote_ops = "(string \<times> pyval) list"

text \<open>Reading the fields \<^verbatim>\<open>op_value[f]\<close> of a dict literal, left to right.\<close>

fun fields :: "pyval \<Rightarrow> string list \<Rightarrow> py_error + (string \<times> pyval) list" where
  "fields v [] = Inr []"
| "fields v (f # fs) =
     (case subscript v f of
        Inl e \<Rightarrow> Inl e
      | Inr x \<Rightarrow> (case fields v fs of Inl e \<Rightarrow> Inl e | Inr rest \<Rightarrow> Inr ((f, x) # rest)))"

text \<open>\<^verbatim>\<open>"{}/{}".format(op_value[a], op_value[p])\<close>\<close>

definition key_of :: "pyval \<Rightarrow> string \<Rightarrow> string \<Rightarrow> py_error + string" where
  "key_of v a p =
     (case subscript v a of
        Inl e \<Rightarrow> Inl e
      | Inr x \<Rightarrow> (case subscript v p of Inl e \<Rightarrow> Inl e | Inr y \<Rightarrow> Inr (format_key x y)))"

text \<open>
  The \<^verbatim>\<open>if\<close>/\<^verbatim>\<open>elif\<close> chain of the loop body: the key and value of one virtual operation,
  \<open>None\<close> for a type the chain does not name. In the
  \<^verbatim>\<open>effective_comment_vote_operation\<close> branch the key and the value are computed and
  then \<^verbatim>\<open>vote_ops.append(vop)\<close> runs on \<^verbatim>\<open>vote_ops = {}\<close>: a dict has no \<^verbatim>\<open>append\<close>.
\<close>

definition classify_vop :: "operation \<Rightarrow> py_error + (string \<times> (string \<times> pyval) list) option" where
  "classify_vop vop =
     (let t = op_type vop; v = op_value vop in
      if t = ''curation_reward_operation'' then
        (case key_of v ''comment_author'' ''comment_permlink'' of
           Inl e \<Rightarrow> Inl e
         | Inr key \<Rightarrow> (case fields v [''reward''] of
             Inl e \<Rightarrow> Inl e | Inr val \<Rightarrow> Inr (Some (key, val))))
      else if t = ''author_reward_operation'' then
        (case key_of v ''author'' ''permlink'' of
           Inl e \<Rightarrow> Inl e
         | Inr key \<Rightarrow> (case fields v [''hbd_payout'', ''hive_payout'', ''vesting_payout''] of
             Inl e \<Rightarrow> Inl e | Inr val \<Rightarrow> Inr (Some (key, val))))
      else if t = ''comment_reward_operation'' then
        (case key_of v ''author'' ''permlink'' of
           Inl e \<Rightarrow> Inl e
         | Inr key \<Rightarrow> (case fields v [''payout'', ''author_rewards'', ''total_payout_value'',
                                      ''curator_payout_value'', ''beneficiary_payout_value''] of
             Inl e \<Rightarrow> Inl e | Inr val \<Rightarrow> Inr (Some (key, val))))
      else if t = ''effective_comment_vote_operation'' then
        (case key_of v ''author'' ''permlink'' of
           Inl e \<Rightarrow> Inl e
         | Inr key \<Rightarrow> (case fields v [''pending_payout''] of
             Inl e \<Rightarrow> Inl e | Inr val \<Rightarrow> Inl (AttributeError ''append'')))
      else if t = ''comment_payout_update_operation'' then
        (case key_of v ''author'' ''permlink'' of
           Inl e \<Rightarrow> Inl e
         | Inr key \<Rightarrow> Inr (Some (key, [(''is_paidout'', PBool True)])))
      else Inr None)"

text \<open>
  \<^verbatim>\<open>if key in comment_payout_ops: comment_payout_ops[key].append({op_type: val})\<close>,
  \<^verbatim>\<open>else: comment_payout_ops[key] = [{op_type: val}]\<close>.
\<close>

definition add_payout :: "payout_ops \<Rightarrow> string \<Rightarrow> payout_entry \<Rightarrow> payout_ops" where
  "add_payout d key entry =
     (case map_of d key of
        Some es \<Rightarrow> AList.update key (es @ [entry]) d
      | None \<Rightarrow> AList.update key [entry] d)"

fun prepare_vops_loop :: "payout_ops \<Rightarrow> operation list \<Rightarrow> py_error + payout_ops" where
  "prepare_vops_loop d [] = Inr d"
| "prepare_vops_loop d (vop # vops) =
     (case classify_vop vop of
        Inl e \<Rightarrow> Inl e
      | Inr None \<Rightarrow> prepare_vops_loop d vops
      | Inr (Some (key, val)) \<Rightarrow> prepare_vops_loop (add_payout d key (op_type vop, val)) vops)"

text \<open>
  \<^verbatim>\<open>prepare_vops(vopsList, date)\<close> returns \<^verbatim>\<open>(vote_ops, comment_payout_ops)\<close>. Nothing ever
  enters \<^verbatim>\<open>vote_ops\<close>, so it is the empty dict whenever the function returns.
\<close>

definition prepare_vops :: "operation list \<Rightarrow> string option \<Rightarrow> py_error + (vote_ops \<times> payout_ops)" where
  "prepare_vops vopsList date =
     (case prepare_vops_loop [] vopsList of Inl e \<Rightarrow> Inl e | Inr d \<Rightarrow> Inr ([], d))"

section \<open>Blocks, headers and the processor's state\<close>

text \<open>The block schema: a block has transactions, a transaction has operations.\<close>

record tx =
  operations :: "operation list"

record block =
  block_id :: string
  previous :: string
  timestamp :: string
  transactions :: "tx list"

text \<open>
  A header staged by \<^verbatim>\<open>_push\<close> and a row of \<^verbatim>\<open>hive_blocks\<close>: the dict with the keys
  \<^verbatim>\<open>num\<close>, \<^verbatim>\<open>hash\<close>, \<^verbatim>\<open>prev\<close>, \<^verbatim>\<open>txs\<close>, \<^verbatim>\<open>ops\<close>, \<^verbatim>\<open>date\<close>.
\<close>

record header =
  h_num :: int
  h_hash :: string
  h_prev :: string
  h_txs :: nat
  h_ops :: nat
  h_date :: string

text \<open>The row \<^verbatim>\<open>_get\<close> selects: \<^verbatim>\<open>num\<close>, \<^verbatim>\<open>created_at date\<close>, \<^verbatim>\<open>hash\<close>.\<close>

record block_row =
  r_num :: int
  r_date :: string
  r_hash :: string

text \<open>
  Everything the module calls outside itself is an event: the domain sub-processors, the
  upstream node, the statements sent to the database, and the one error log line of
  \<^verbatim>\<open>process_multi\<close>. The processor appends each call to a trace, in the order it makes them.
\<close>

datatype event =
    AccountsRegister "pyval set" "string option"
  | AccountsDirty pyval
  | PostsCommentOp pyval "string option"
  | PostsDeleteOp pyval
  | PostsCommentOptionsOp pyval
  | PaymentsOpTransfer pyval nat int "string option"
  | CustomOpProcessOps "pyval list" int "string option"
  | HivedGetVirtualOperations int
  | VotesEffectiveCommentVoteOp string pyval "string option"
  | PostsCommentPayoutOp payout_ops "string option"
  | PostDataCacheFlush
  | TagsFlush
  | VotesFlush
  | FollowFlush bool
  | DbQuery string
  | DbSelectPostIds string
  | DbDeleteSince string string
  | DbDeleteIds string "int list"
  | DbDeletePayments int
  | DbDeleteBlock int
  | SteemGetBlock int
  | SteemLastIrreversible
  | LogError int

text \<open>
  The class attributes of \<^verbatim>\<open>Blocks\<close> (\<^verbatim>\<open>blocks_to_flush\<close>, \<^verbatim>\<open>ops_stats\<close>,
  \<^verbatim>\<open>_head_block_date\<close>), the table \<^verbatim>\<open>hive_blocks\<close> as this connection sees it, the trace,
  and the state \<open>world\<close> of everything else (the other tables, the sub-processors'
  buffers, the upstream node).
\<close>

record 'w state =
  blocks_to_flush :: "header list"
  ops_stats :: ops_stats
  head_block_date :: "string option"
  hive_blocks :: "header list"
  trace :: "event list"
  world :: 'w

text \<open>
  The collaborators, none of them part of this module: each answers a call in the
  current \<open>world\<close> with an exception or a result, and a new \<open>world\<close>. \<open>proc\<close> answers
  the calls that return nothing.
\<close>

record 'w env =
  proc :: "event \<Rightarrow> 'w \<Rightarrow> (py_error + unit) \<times> 'w"
  CustomOp_process_ops :: "pyval list \<Rightarrow> int \<Rightarrow> string option \<Rightarrow> 'w \<Rightarrow> (py_error + ops_stats option) \<times> 'w"
  Posts_comment_payout_op :: "payout_ops \<Rightarrow> string option \<Rightarrow> 'w \<Rightarrow> (py_error + ops_stats option) \<times> 'w"
  hived_get_virtual_operations :: "int \<Rightarrow> 'w \<Rightarrow> (py_error + operation list) \<times> 'w"
  DB_query_col_post_ids :: "string \<Rightarrow> 'w \<Rightarrow> (py_error + int list) \<times> 'w"
  steem_get_block :: "int \<Rightarrow> 'w \<Rightarrow> (py_error + pyval) \<times> 'w"
  steem_last_irreversible :: "'w \<Rightarrow> (py_error + int) \<times> 'w"

text \<open>A method of \<^verbatim>\<open>Blocks\<close>: it raises or returns, and leaves a state either way.\<close>

type_synonym ('w, 'a) meth = "'w state \<Rightarrow> (py_error + 'a) \<times> 'w state"

definition ret :: "'a \<Rightarrow> ('w, 'a) meth" where
  "ret x s = (Inr x, s)"

definition raise :: "py_error \<Rightarrow> ('w, 'a) meth" where
  "raise e s = (Inl e, s)"

definition lift :: "py_error + 'a \<Rightarrow> ('w, 'a) meth" where
  "lift r s = (r, s)"

definition thn :: "('w, 'a) meth \<Rightarrow> ('a \<Rightarrow> ('w, 'b) meth) \<Rightarrow> ('w, 'b) meth" where
  "thn m f s = (case m s of (Inl e, s') \<Rightarrow> (Inl e, s') | (Inr x, s') \<Rightarrow> f x s')"

text \<open>Calling a collaborator: the call enters the trace, the answer changes the world.\<close>

definition answered :: "event \<Rightarrow> ('w \<Rightarrow> (py_error + 'a) \<times> 'w) \<Rightarrow> ('w, 'a) meth" where
  "answered ev f s =
     (case f (world s) of (r, w') \<Rightarrow> (r, s\<lparr>trace := trace s @ [ev], world := w'\<rparr>))"

definition call :: "'w env \<Rightarrow> event \<Rightarrow> ('w, unit) meth" where
  "call env ev = answered ev (proc env ev)"

text \<open>A \<^verbatim>\<open>for\<close> loop that carries a local variable and stops at the first exception.\<close>

fun for_each :: "('b \<Rightarrow> 'a \<Rightarrow> ('w, 'b) meth) \<Rightarrow> 'a list \<Rightarrow> 'b \<Rightarrow> ('w, 'b) meth" where
  "for_each body [] acc = ret acc"
| "for_each body (x # xs) acc = thn (body acc x) (for_each body xs)"

section \<open>The block store\<close>

subsection \<open>\<^verbatim>\<open>int(s, base=16)\<close>\<close>

text \<open>
  Python's \<^verbatim>\<open>int\<close> with base 16 on an ASCII string: white space around the number, one
  sign, the prefix \<^verbatim>\<open>0x\<close> or \<^verbatim>\<open>0X\<close> (one underscore may follow it), then hexadecimal
  digits with single underscores between them. Anything else is a \<^verbatim>\<open>ValueError\<close>.
\<close>

definition is_space :: "char \<Rightarrow> bool" where
  "is_space c = (let n = (of_char c :: int) in (9 \<le> n \<and> n \<le> 13) \<or> n = 32)"

definition hex_val :: "char \<Rightarrow> int option" where
  "hex_val c =
     (let n = (of_char c :: int) in
      if 48 \<le> n \<and> n \<le> 57 then Some (n - 48)
      else if 97 \<le> n \<and> n \<le> 102 then Some (n - 87)
      else if 65 \<le> n \<and> n \<le> 70 then Some (n - 55)
      else None)"

definition nibble :: "char \<Rightarrow> int" where
  "nibble c = (case hex_val c of Some d \<Rightarrow> d | None \<Rightarrow> 0)"

definition digit_or_us :: "char \<Rightarrow> bool" where
  "digit_or_us c = (hex_val c \<noteq> None \<or> c = CHR ''_'')"

fun strip_sign :: "string \<Rightarrow> bool \<times> string" where
  "strip_sign [] = (False, [])"
| "strip_sign (c # r) =
     (if c = CHR ''-'' then (True, r) else if c = CHR ''+'' then (False, r) else (False, c # r))"

fun strip_prefix16 :: "string \<Rightarrow> string" where
  "strip_prefix16 (c # x # r) =
     (if c = CHR ''0'' \<and> (x = CHR ''x'' \<or> x = CHR ''X'')
      then (case r of [] \<Rightarrow> [] | u # r' \<Rightarrow> if u = CHR ''_'' then r' else u # r')
      else c # x # r)"
| "strip_prefix16 s = s"

fun us_ok :: "string \<Rightarrow> bool" where
  "us_ok [] = True"
| "us_ok [c] = (c \<noteq> CHR ''_'')"
| "us_ok (c # d # r) = (\<not> (c = CHR ''_'' \<and> d = CHR ''_'') \<and> us_ok (d # r))"

definition hex_value :: "string \<Rightarrow> int" where
  "hex_value ds = foldl (\<lambda>a c. 16 * a + nibble c) 0 ds"

definition py_int16 :: "string \<Rightarrow> py_error + int" where
  "py_int16 s =
     (let s1 = dropWhile is_space s;
          neg = fst (strip_sign s1);
          s3 = strip_prefix16 (snd (strip_sign s1));
          body = takeWhile digit_or_us s3;
          rest = dropWhile digit_or_us s3
      in if body = [] \<or> hd body = CHR ''_'' \<or> \<not> us_ok body \<or> \<not> list_all is_space rest
         then Inl ValueError
         else let v = hex_value (filter (\<lambda>c. c \<noteq> CHR ''_'') body)
              in Inr (if neg then - v else v))"

subsection \<open>Head, lookup, staging and flushing\<close>

text \<open>
  \<^verbatim>\<open>head_num\<close>: \<^verbatim>\<open>SELECT num FROM hive_blocks ORDER BY num DESC LIMIT 1\<close>, \<^verbatim>\<open>or 0\<close>.
\<close>

definition max_num :: "header list \<Rightarrow> int option" where
  "max_num tbl = (case tbl of [] \<Rightarrow> None | r # rs \<Rightarrow> Some (fold max (map h_num rs) (h_num r)))"

definition head_num :: "'w state \<Rightarrow> int" where
  "head_num s = (case max_num (hive_blocks s) of None \<Rightarrow> 0 | Some n \<Rightarrow> n)"

text \<open>\<^verbatim>\<open>_get(num)\<close>: \<^verbatim>\<open>dict(DB.query_row(...))\<close>; without a row, \<^verbatim>\<open>dict(None)\<close> is a \<^verbatim>\<open>TypeError\<close>.\<close>

definition priv_get :: "int \<Rightarrow> ('w, block_row) meth" where
  "priv_get n s =
     (case find (\<lambda>r. h_num r = n) (hive_blocks s) of
        None \<Rightarrow> (Inl TypeError, s)
      | Some r \<Rightarrow> (Inr \<lparr>r_num = h_num r, r_date = h_date r, r_hash = h_hash r\<rparr>, s))"

text \<open>\<^verbatim>\<open>_push(block)\<close> stages the header and returns its number.\<close>

definition priv_push :: "block \<Rightarrow> ('w, int) meth" where
  "priv_push block s =
     (case py_int16 (take 8 (block_id block)) of
        Inl e \<Rightarrow> (Inl e, s)
      | Inr n \<Rightarrow>
          (let txs = transactions block in
           (Inr n,
            s\<lparr>blocks_to_flush := blocks_to_flush s @
                [\<lparr>h_num = n,
                  h_hash = block_id block,
                  h_prev = previous block,
                  h_txs = length txs,
                  h_ops = sum_list (map (\<lambda>t. length (operations t)) txs),
                  h_date = timestamp block\<rparr>]\<rparr>)))"

text \<open>
  \<^verbatim>\<open>_flush_blocks\<close> writes the statement as text. \<open>insert_query\<close> is the triple-quoted
  literal \<^verbatim>\<open>query\<close>, with its line breaks and indentation; \<open>values_row\<close> is
  \<^verbatim>\<open>"({}, '{}', '{}', {}, {}, '{}')".format(block['num'], block['hash'], block['prev'],\<close>
  \<^verbatim>\<open>block['txs'], block['ops'], block['date'])\<close>: the strings are pasted between
  apostrophes as they are.
\<close>

definition quote :: char where
  "quote = CHR 0x27"

definition insert_query :: string where
  "insert_query =
     [CHR 0x0A] @ ''            INSERT INTO '' @
     [CHR 0x0A] @ ''                hive_blocks (num, hash, prev, txs, ops, created_at) '' @
     [CHR 0x0A] @ ''            VALUES '' @
     [CHR 0x0A] @ ''        ''"

definition values_row :: "header \<Rightarrow> string" where
  "values_row block =
     ''('' @ str_int (h_num block) @ '', '' @
     [quote] @ h_hash block @ [quote] @ '', '' @
     [quote] @ h_prev block @ [quote] @ '', '' @
     str_int (int (h_txs block)) @ '', '' @
     str_int (int (h_ops block)) @ '', '' @
     [quote] @ h_date block @ [quote] @ '')''"

text \<open>
  Modelled from the spec: the table \<^verbatim>\<open>blocks(num PK, hash, prev, txs, ops, created_at)\<close>
  and the database that holds it are not part of the source. The database is given the
  text of the statement and nothing else, and reads it back: after the text of
  \<open>insert_query\<close>, one or more rows \<^verbatim>\<open>(num, 'hash', 'prev', txs, ops, 'date')\<close> separated by
  commas, where a number is a run of decimal digits (\<^verbatim>\<open>num\<close> may have a minus sign) and a
  string ends at the first apostrophe that is not doubled (a doubled apostrophe stands
  for one). It refuses every other text, and it refuses rows that would make a \<^verbatim>\<open>num\<close>
  occur twice in the table.
\<close>

definition is_digit :: "char \<Rightarrow> bool" where
  "is_digit c = (let n = (of_char c :: int) in 48 \<le> n \<and> n \<le> 57)"

definition sql_nat :: "string \<Rightarrow> (int \<times> string) option" where
  "sql_nat s =
     (let ds = takeWhile is_digit s
      in if ds = [] then None
         else Some (foldl (\<lambda>a c. 10 * a + (of_char c - 48)) 0 ds, dropWhile is_digit s))"

definition sql_int :: "string \<Rightarrow> (int \<times> string) option" where
  "sql_int s =
     (case s of
        [] \<Rightarrow> None
      | c # r \<Rightarrow>
          if c = CHR ''-'' then map_option (\<lambda>(n, r'). (- n, r')) (sql_nat r) else sql_nat s)"

text \<open>The characters of a string, read from behind its opening apostrophe.\<close>

fun sql_chars :: "string \<Rightarrow> (string \<times> string) option" where
  "sql_chars [] = None"
| "sql_chars [c] = (if c = quote then Some ([], []) else None)"
| "sql_chars (c # d # r) =
     (if c \<noteq> quote then map_option (apfst ((#) c)) (sql_chars (d # r))
      else if d = quote then map_option (apfst ((#) quote)) (sql_chars r)
      else Some ([], d # r))"

definition sql_string :: "string \<Rightarrow> (string \<times> string) option" where
  "sql_string s = (case s of [] \<Rightarrow> None | c # r \<Rightarrow> if c = quote then sql_chars r else None)"

definition expect :: "string \<Rightarrow> string \<Rightarrow> string option" where
  "expect p s = (if take (length p) s = p then Some (drop (length p) s) else None)"

definition sql_row :: "string \<Rightarrow> (header \<times> string) option" where
  "sql_row s =
     Option.bind (expect ''('' s) (\<lambda>s.
     Option.bind (sql_int s) (\<lambda>(num, s).
     Option.bind (expect '', '' s) (\<lambda>s.
     Option.bind (sql_string s) (\<lambda>(hash, s).
     Option.bind (expect '', '' s) (\<lambda>s.
     Option.bind (sql_string s) (\<lambda>(prev, s).
     Option.bind (expect '', '' s) (\<lambda>s.
     Option.bind (sql_nat s) (\<lambda>(txs, s).
     Option.bind (expect '', '' s) (\<lambda>s.
     Option.bind (sql_nat s) (\<lambda>(ops, s).
     Option.bind (expect '', '' s) (\<lambda>s.
     Option.bind (sql_string s) (\<lambda>(date, s).
     Option.bind (expect '')'' s) (\<lambda>s.
     Some (\<lparr>h_num = num, h_hash = hash, h_prev = prev, h_txs = nat txs, h_ops = nat ops,
            h_date = date\<rparr>, s))))))))))))))"

text \<open>The rows of a text; a text of \<open>n\<close> characters holds fewer than \<open>n\<close> rows.\<close>

primrec sql_rows :: "nat \<Rightarrow> string \<Rightarrow> header list option" where
  "sql_rows 0 s = None"
| "sql_rows (Suc n) s =
     (case sql_row s of
        None \<Rightarrow> None
      | Some (row, r) \<Rightarrow>
          if r = [] then Some [row]
          else case expect '','' r of
                 None \<Rightarrow> None
               | Some r' \<Rightarrow> map_option ((#) row) (sql_rows n r'))"

definition db_insert_blocks :: "string \<Rightarrow> header list \<Rightarrow> py_error + header list" where
  "db_insert_blocks sql tbl =
     (case expect insert_query sql of
        None \<Rightarrow> Inl (Raised ''syntax error'')
      | Some vs \<Rightarrow>
          (case sql_rows (length vs) vs of
             None \<Rightarrow> Inl (Raised ''syntax error'')
           | Some rows \<Rightarrow>
               if \<not> distinct (map h_num (tbl @ rows)) then Inl (Raised ''duplicate key'')
               else Inr (tbl @ rows)))"

text \<open>
  \<^verbatim>\<open>_flush_blocks\<close>: one row of text for each staged header, in the order of the buffer;
  \<^verbatim>\<open>DB.query(query + ",".join(values))\<close>; the buffer is cleared only after the database
  has accepted the statement.
\<close>

definition priv_flush_blocks :: "('w, unit) meth" where
  "priv_flush_blocks s =
     (let query = insert_query;
          values = map values_row (blocks_to_flush s);
          sql = query @ join '','' values;
          s1 = s\<lparr>trace := trace s @ [DbQuery sql]\<rparr>
      in case db_insert_blocks sql (hive_blocks s) of
           Inl e \<Rightarrow> (Inl e, s1)
         | Inr tbl \<Rightarrow> (Inr (), s1\<lparr>hive_blocks := tbl, blocks_to_flush := []\<rparr>))"

text \<open>
  \<^verbatim>\<open>head_date\<close>: \<^verbatim>\<open>created_at\<close> of the row with the greatest \<^verbatim>\<open>num\<close>, or the empty string.
  (\<^verbatim>\<open>__init__\<close> stores it in an attribute of the instance it is given; the class
  attribute \<^verbatim>\<open>_head_block_date\<close>, which the class methods read, starts as \<^verbatim>\<open>None\<close>.)
\<close>

definition head_date :: "'w state \<Rightarrow> string" where
  "head_date s =
     (case max_num (hive_blocks s) of
        None \<Rightarrow> []
      | Some n \<Rightarrow> (case find (\<lambda>r. h_num r = n) (hive_blocks s) of
                    None \<Rightarrow> [] | Some r \<Rightarrow> h_date r))"

section \<open>The block processor\<close>

subsection \<open>Pass 1: the accounts a block creates\<close>

text \<open>\<^verbatim>\<open>v[k1][k2]...\<close>\<close>

fun path :: "pyval \<Rightarrow> string list \<Rightarrow> py_error + pyval" where
  "path v [] = Inr v"
| "path v (k # ks) = (case subscript v k of Inl e \<Rightarrow> Inl e | Inr x \<Rightarrow> path x ks)"

text \<open>
  \<^verbatim>\<open>account_names.add(x)\<close>: a list or a dict is not hashable. (Python identifies
  \<^verbatim>\<open>True\<close> with \<^verbatim>\<open>1\<close> in a set; account names are strings, and the model keeps the
  two apart.)
\<close>

fun hashable :: "pyval \<Rightarrow> bool" where
  "hashable (PList xs) = False"
| "hashable (PDict kvs) = False"
| "hashable v = True"

definition set_add :: "pyval set \<Rightarrow> pyval \<Rightarrow> py_error + pyval set" where
  "set_add A x = (if hashable x then Inr (insert x A) else Inl TypeError)"

text \<open>Where an account-creating operation names its account; \<open>None\<close> for any other type.\<close>

definition name_path :: "string \<Rightarrow> string list option" where
  "name_path t =
     (if t = ''pow_operation'' then Some [''worker_account'']
      else if t = ''pow2_operation'' then Some [''work'', ''value'', ''input'', ''worker_account'']
      else if t = ''account_create_operation'' then Some [''new_account_name'']
      else if t = ''account_create_with_delegation_operation'' then Some [''new_account_name'']
      else if t = ''create_claimed_account_operation'' then Some [''new_account_name'']
      else None)"

fun collect_names :: "pyval set \<Rightarrow> operation list \<Rightarrow> py_error + pyval set" where
  "collect_names account_names [] = Inr account_names"
| "collect_names account_names (operation # rest) =
     (case name_path (op_type operation) of
        None \<Rightarrow> collect_names account_names rest
      | Some ks \<Rightarrow>
          (case path (op_value operation) ks of
             Inl e \<Rightarrow> Inl e
           | Inr x \<Rightarrow> (case set_add account_names x of
                         Inl e \<Rightarrow> Inl e
                       | Inr names \<Rightarrow> collect_names names rest)))"

text \<open>The operations of a block in the order of the two nested loops, and with \<^verbatim>\<open>tx_idx\<close>.\<close>

definition all_ops :: "block \<Rightarrow> operation list" where
  "all_ops block = concat (map operations (transactions block))"

definition indexed_ops :: "block \<Rightarrow> (nat \<times> operation) list" where
  "indexed_ops block =
     concat (map (\<lambda>itx. map (Pair (fst itx)) (operations (snd itx)))
                 (enumerate 0 (transactions block)))"

subsection \<open>Pass 2: dispatch\<close>

definition get_date :: "('w, string option) meth" where
  "get_date s = (Inr (head_block_date s), s)"

definition set_date :: "string \<Rightarrow> ('w, unit) meth" where
  "set_date d s = (Inr (), s\<lparr>head_block_date := Some d\<rparr>)"

text \<open>\<^verbatim>\<open>if op_type in cls.ops_stats: cls.ops_stats[op_type] += 1\<close>, \<^verbatim>\<open>else: ... = 1\<close>\<close>

definition count_op :: "string \<Rightarrow> ('w, unit) meth" where
  "count_op t s =
     (Inr (),
      s\<lparr>ops_stats :=
          (case map_of (ops_stats s) t of
             Some c \<Rightarrow> AList.update t (c + 1) (ops_stats s)
           | None \<Rightarrow> AList.update t 1 (ops_stats s))\<rparr>)"

definition merge_stats :: "ops_stats option \<Rightarrow> ('w, unit) meth" where
  "merge_stats od2 s = (Inr (), s\<lparr>ops_stats := merge_ops_stats (ops_stats s) od2\<rparr>)"

text \<open>\<^verbatim>\<open>Accounts.dirty(op[k])\<close>\<close>

definition dirty :: "'w env \<Rightarrow> pyval \<Rightarrow> string \<Rightarrow> ('w, unit) meth" where
  "dirty env op k = thn (lift (subscript op k)) (\<lambda>a. call env (AccountsDirty a))"

text \<open>
  The body of the second scan for one operation of transaction \<open>tx_idx\<close>; \<open>json_ops\<close> is
  the list the scan builds.
\<close>

definition dispatch ::
  "'w env \<Rightarrow> bool \<Rightarrow> int \<Rightarrow> pyval list \<Rightarrow> nat \<times> operation \<Rightarrow> ('w, pyval list) meth" where
  "dispatch env is_initial_sync num json_ops ixop =
     (let tx_idx = fst ixop; t = op_type (snd ixop); op = op_value (snd ixop) in
      thn (if t \<noteq> ''custom_json_operation'' then count_op t else ret ())
      (\<lambda>_.
        if t = ''account_update_operation'' then
          (if \<not> is_initial_sync then thn (dirty env op ''account'') (\<lambda>_. ret json_ops)
           else ret json_ops)
        else if t = ''account_update2_operation'' then
          (if \<not> is_initial_sync then thn (dirty env op ''account'') (\<lambda>_. ret json_ops)
           else ret json_ops)
        else if t = ''comment_operation'' then
          thn get_date (\<lambda>d.
          thn (call env (PostsCommentOp op d)) (\<lambda>_.
          if \<not> is_initial_sync then thn (dirty env op ''author'') (\<lambda>_. ret json_ops)
          else ret json_ops))
        else if t = ''delete_comment_operation'' then
          thn (call env (PostsDeleteOp op)) (\<lambda>_. ret json_ops)
        else if t = ''comment_options_operation'' then
          thn (call env (PostsCommentOptionsOp op)) (\<lambda>_. ret json_ops)
        else if t = ''vote_operation'' then
          (if \<not> is_initial_sync then
             thn (dirty env op ''author'') (\<lambda>_.
             thn (dirty env op ''voter'') (\<lambda>_. ret json_ops))
           else ret json_ops)
        else if t = ''transfer_operation'' then
          thn get_date (\<lambda>d.
          thn (call env (PaymentsOpTransfer op tx_idx num d)) (\<lambda>_. ret json_ops))
        else if t = ''custom_json_operation'' then ret (json_ops @ [op])
        else ret json_ops))"

subsection \<open>\<^verbatim>\<open>_process\<close>\<close>

text \<open>
  \<^verbatim>\<open>if cls._head_block_date is None: cls._head_block_date = block_date\<close>
\<close>

definition seed_date :: "string \<Rightarrow> ('w, unit) meth" where
  "seed_date block_date s =
     (Inr (), if head_block_date s = None then s\<lparr>head_block_date := Some block_date\<rparr> else s)"

definition custom_json :: "'w env \<Rightarrow> pyval list \<Rightarrow> int \<Rightarrow> ('w, unit) meth" where
  "custom_json env json_ops num =
     thn get_date (\<lambda>d.
     thn (answered (CustomOpProcessOps json_ops num d) (CustomOp_process_ops env json_ops num d))
       merge_stats)"

definition comment_payout :: "'w env \<Rightarrow> payout_ops \<Rightarrow> ('w, unit) meth" where
  "comment_payout env comment_payout_ops =
     thn get_date (\<lambda>d.
     thn (answered (PostsCommentPayoutOp comment_payout_ops d)
            (Posts_comment_payout_op env comment_payout_ops d))
       merge_stats)"

text \<open>
  The virtual operations of block \<open>num\<close>: from the map the caller loaded during the
  initial sync, else asked from the node and folded by \<^verbatim>\<open>prepare_vops\<close>.
\<close>

definition get_vops ::
  "'w env \<Rightarrow> (int \<Rightarrow> (vote_ops \<times> payout_ops) option) \<Rightarrow> bool \<Rightarrow> int \<Rightarrow>
   ('w, vote_ops \<times> payout_ops) meth" where
  "get_vops env virtual_operations is_initial_sync num =
     (if is_initial_sync then
        ret (case virtual_operations num of Some p \<Rightarrow> p | None \<Rightarrow> ([], []))
      else
        thn (answered (HivedGetVirtualOperations num) (hived_get_virtual_operations env num))
        (\<lambda>vops. thn get_date (\<lambda>d. lift (prepare_vops vops d))))"

definition vote_op :: "'w env \<Rightarrow> unit \<Rightarrow> string \<times> pyval \<Rightarrow> ('w, unit) meth" where
  "vote_op env u kv =
     thn get_date (\<lambda>d. call env (VotesEffectiveCommentVoteOp (fst kv) (snd kv) d))"

definition priv_process ::
  "'w env \<Rightarrow> block \<Rightarrow> (int \<Rightarrow> (vote_ops \<times> payout_ops) option) \<Rightarrow> bool \<Rightarrow> ('w, int) meth" where
  "priv_process env block virtual_operations is_initial_sync =
     thn (priv_push block) (\<lambda>num.
     thn (seed_date (timestamp block)) (\<lambda>_.
     thn (lift (collect_names {} (all_ops block))) (\<lambda>account_names.
     thn get_date (\<lambda>d.
     thn (call env (AccountsRegister account_names d)) (\<lambda>_.
     thn (for_each (dispatch env is_initial_sync num) (indexed_ops block) []) (\<lambda>json_ops.
     thn (if json_ops \<noteq> [] then custom_json env json_ops num else ret ()) (\<lambda>_.
     thn (get_vops env virtual_operations is_initial_sync num) (\<lambda>vops.
     thn (for_each (vote_op env) (fst vops) ()) (\<lambda>_.
     thn (if snd vops \<noteq> [] then comment_payout env (snd vops) else ret ()) (\<lambda>_.
     thn (set_date (timestamp block)) (\<lambda>_.
     ret num)))))))))))"

section \<open>The batch driver\<close>

text \<open>
  The loop of \<^verbatim>\<open>process_multi\<close>: \<^verbatim>\<open>last_num\<close> is the number the last finished
  \<^verbatim>\<open>_process\<close> returned. An exception leaves the loop with \<^verbatim>\<open>last_num\<close> as it stands.
\<close>

fun process_blocks ::
  "'w env \<Rightarrow> (int \<Rightarrow> (vote_ops \<times> payout_ops) option) \<Rightarrow> bool \<Rightarrow> block list \<Rightarrow> int \<Rightarrow>
   'w state \<Rightarrow> (py_error \<times> int + int) \<times> 'w state" where
  "process_blocks env vops is_initial_sync [] last_num s = (Inr last_num, s)"
| "process_blocks env vops is_initial_sync (block # blocks) last_num s =
     (case priv_process env block vops is_initial_sync s of
        (Inl e, s') \<Rightarrow> (Inl (e, last_num), s')
      | (Inr num, s') \<Rightarrow> process_blocks env vops is_initial_sync blocks num s')"

definition get_ops_stats :: "('w, ops_stats) meth" where
  "get_ops_stats s = (Inr (ops_stats s), s)"

definition flush_all :: "'w env \<Rightarrow> ('w, ops_stats) meth" where
  "flush_all env =
     thn (call env PostDataCacheFlush) (\<lambda>_.
     thn (call env TagsFlush) (\<lambda>_.
     thn (call env VotesFlush) (\<lambda>_.
     thn priv_flush_blocks (\<lambda>_.
     thn (call env (FollowFlush False)) (\<lambda>_.
     thn (call env (DbQuery ''COMMIT'')) (\<lambda>_.
     get_ops_stats))))))"

definition process_multi ::
  "'w env \<Rightarrow> block list \<Rightarrow> (int \<Rightarrow> (vote_ops \<times> payout_ops) option) \<Rightarrow> bool \<Rightarrow>
   ('w, ops_stats) meth" where
  "process_multi env blocks vops is_initial_sync =
     thn (call env (DbQuery ''START TRANSACTION''))
     (\<lambda>_ s.
        case process_blocks env vops is_initial_sync blocks 0 s of
          (Inl (e, last_num), s') \<Rightarrow> (Inl e, s'\<lparr>trace := trace s' @ [LogError (last_num + 1)]\<rparr>)
        | (Inr last_num, s') \<Rightarrow> flush_all env s')"

text \<open>\<^verbatim>\<open>process\<close>: one block, then the three domain flushers.\<close>

definition process ::
  "'w env \<Rightarrow> block \<Rightarrow> (int \<Rightarrow> (vote_ops \<times> payout_ops) option) \<Rightarrow> ('w, int) meth" where
  "process env block vops_in_block =
     thn (priv_process env block vops_in_block False) (\<lambda>r.
     thn (call env PostDataCacheFlush) (\<lambda>_.
     thn (call env TagsFlush) (\<lambda>_.
     thn (call env VotesFlush) (\<lambda>_.
     ret r))))"

section \<open>Fork recovery\<close>

text \<open>\<^verbatim>\<open>DELETE FROM hive_blocks WHERE num = :num\<close>\<close>

definition db_delete_block :: "int \<Rightarrow> ('w, unit) meth" where
  "db_delete_block n s =
     (Inr (),
      s\<lparr>hive_blocks := filter (\<lambda>r. h_num r \<noteq> n) (hive_blocks s),
        trace := trace s @ [DbDeleteBlock n]\<rparr>)"

definition assert_head :: "int \<Rightarrow> ('w, unit) meth" where
  "assert_head n s =
     (if n = head_num s then (Inr (), s) else (Inl (AssertionError ''can only pop head block''), s))"

definition delete_since :: "'w env \<Rightarrow> string \<Rightarrow> unit \<Rightarrow> string \<Rightarrow> ('w, unit) meth" where
  "delete_since env date u table = call env (DbDeleteSince table date)"

definition delete_ids :: "'w env \<Rightarrow> int list \<Rightarrow> unit \<Rightarrow> string \<Rightarrow> ('w, unit) meth" where
  "delete_ids env ids u table = call env (DbDeleteIds table ids)"

text \<open>The body of the loop of \<^verbatim>\<open>_pop\<close>.\<close>

definition pop_block :: "'w env \<Rightarrow> unit \<Rightarrow> block_row \<Rightarrow> ('w, unit) meth" where
  "pop_block env u block =
     (let num = r_num block; date = r_date block in
      thn (assert_head num) (\<lambda>_.
      thn (answered (DbSelectPostIds date) (DB_query_col_post_ids env date)) (\<lambda>post_ids.
      thn (for_each (delete_since env date)
             [''hive_notifs'', ''hive_subscriptions'', ''hive_roles'', ''hive_communities'',
              ''hive_feed_cache'', ''hive_reblogs'', ''hive_follows''] ()) (\<lambda>_.
      thn (if post_ids \<noteq> [] then
             for_each (delete_ids env post_ids)
               [''hive_post_tags'', ''hive_posts'', ''hive_posts_data''] ()
           else ret ()) (\<lambda>_.
      thn (call env (DbDeletePayments num)) (\<lambda>_.
      db_delete_block num))))))"

definition priv_pop :: "'w env \<Rightarrow> block_row list \<Rightarrow> ('w, unit) meth" where
  "priv_pop env blocks =
     thn (call env (DbQuery ''START TRANSACTION'')) (\<lambda>_.
     thn (for_each (pop_block env) blocks ()) (\<lambda>_.
     call env (DbQuery ''COMMIT'')))"

text \<open>\<^verbatim>\<open>steem.get_block(cursor)['block_id']\<close>\<close>

definition steem_block_id :: "'w env \<Rightarrow> int \<Rightarrow> ('w, pyval) meth" where
  "steem_block_id env cursor =
     thn (answered (SteemGetBlock cursor) (steem_get_block env cursor))
       (\<lambda>b. lift (subscript b ''block_id''))"

text \<open>
  The \<^verbatim>\<open>while True\<close> loop of \<^verbatim>\<open>verify_head\<close>: it returns the cursor at which the hashes
  agree and the rows to pop. The assertion bounds the walk, so the loop terminates.
\<close>

function walk ::
  "'w env \<Rightarrow> int \<Rightarrow> int \<Rightarrow> block_row list \<Rightarrow> ('w, int \<times> block_row list) meth" where
  "walk env hive_head cursor to_pop s =
     (if \<not> hive_head - cursor < 25 then (Inl (AssertionError ''fork too deep''), s)
      else
        (case priv_get cursor s of
           (Inl e, s1) \<Rightarrow> (Inl e, s1)
         | (Inr hive_block, s1) \<Rightarrow>
             (case steem_block_id env cursor s1 of
                (Inl e, s2) \<Rightarrow> (Inl e, s2)
              | (Inr steem_hash, s2) \<Rightarrow>
                  if PStr (r_hash hive_block) = steem_hash then (Inr (cursor, to_pop), s2)
                  else walk env hive_head (cursor - 1) (to_pop @ [hive_block]) s2)))"
  by pat_completeness auto
termination
  by (relation "measure (\<lambda>(env, hive_head, cursor, to_pop, s). nat (25 - (hive_head - cursor)))")
    auto

definition verify_head :: "'w env \<Rightarrow> ('w, unit) meth" where
  "verify_head env s =
     (let hive_head = head_num s in
      if hive_head = 0 then (Inr (), s)
      else
        (case walk env hive_head hive_head [] s of
           (Inl e, s1) \<Rightarrow> (Inl e, s1)
         | (Inr (cursor, to_pop), s1) \<Rightarrow>
             if hive_head = cursor then (Inr (), s1)
             else
               thn (answered SteemLastIrreversible (steem_last_irreversible env))
                 (\<lambda>fork_limit.
                    if cursor < fork_limit then priv_pop env to_pop
                    else raise (AssertionError ''not proceeding until head is irreversible''))
                 s1))"

section \<open>Reference definitions and example data\<close>

text \<open>
  The number of a block as the data model words it: the first eight characters of
  \<^verbatim>\<open>block_id\<close> are four bytes in hexadecimal, read as a big-endian 32-bit integer.
\<close>

definition is_hex :: "char \<Rightarrow> bool" where
  "is_hex c = (hex_val c \<noteq> None)"


text \<open>
  The headers of chain blocks: \<^verbatim>\<open>hash\<close> and \<^verbatim>\<open>prev\<close> are hexadecimal digits, \<^verbatim>\<open>date\<close> is a
  timestamp \<^verbatim>\<open>YYYY-MM-DDTHH:MM:SS\<close>.
\<close>

definition fits :: "char \<Rightarrow> char \<Rightarrow> bool" where
  "fits p c = (if p = CHR ''d'' then is_digit c else c = p)"

definition is_timestamp :: "string \<Rightarrow> bool" where
  "is_timestamp d = list_all2 fits ''dddd-dd-ddTdd:dd:dd'' d"

definition chain_header :: "header \<Rightarrow> bool" where
  "chain_header b =
     (list_all is_hex (h_hash b) \<and> list_all is_hex (h_prev b) \<and> is_timestamp (h_date b))"

text \<open>A fresh process on an empty database, and collaborators that never fail.\<close>

definition fresh :: "unit state" where
  "fresh = \<lparr>blocks_to_flush = [], ops_stats = [], head_block_date = None, hive_blocks = [],
            trace = [], world = ()\<rparr>"

definition quiet :: "unit env" where
  "quiet = \<lparr>proc = (\<lambda>ev w. (Inr (), w)),
            CustomOp_process_ops = (\<lambda>ops n d w. (Inr None, w)),
            Posts_comment_payout_op = (\<lambda>ops d w. (Inr None, w)),
            hived_get_virtual_operations = (\<lambda>n w. (Inr [], w)),
            DB_query_col_post_ids = (\<lambda>d w. (Inr [], w)),
            steem_get_block = (\<lambda>n w. (Inr (PDict [(''block_id'', PStr [])]), w)),
            steem_last_irreversible = (\<lambda>w. (Inr 0, w))\<rparr>"

definition vote_vop :: operation where
  "vote_vop =
     \<lparr>op_type = ''effective_comment_vote_operation'',
      op_value = PDict [(''author'', PStr ''alice''), (''permlink'', PStr ''post''),
                        (''pending_payout'', PStr ''1.000 HBD'')]\<rparr>"

text \<open>Block 10 of the chain, without transactions.\<close>

definition block_10 :: block where
  "block_10 =
     \<lparr>block_id = ''0000000a1234567890abcdef1234567890abcdef'',
      previous = ''00000009ffffffffffffffffffffffffffffffff'',
      timestamp = ''2016-03-24T16:05:30'',
      transactions = []\<rparr>"

section \<open>Reading the trace\<close>

text \<open>
  The calls of the second scan and of the virtual-operations stage of \<^verbatim>\<open>_process\<close>, with
  the date they must carry when they carry one.
\<close>

fun dispatched :: "string \<Rightarrow> event \<Rightarrow> bool" where
  "dispatched d (AccountsDirty a) = True"
| "dispatched d (PostsCommentOp op d') = (d' = Some d)"
| "dispatched d (PostsDeleteOp op) = True"
| "dispatched d (PostsCommentOptionsOp op) = True"
| "dispatched d (PaymentsOpTransfer op i n d') = (d' = Some d)"
| "dispatched d (CustomOpProcessOps ops n d') = (d' = Some d)"
| "dispatched d (HivedGetVirtualOperations n) = True"
| "dispatched d (VotesEffectiveCommentVoteOp k v d') = (d' = Some d)"
| "dispatched d (PostsCommentPayoutOp ops d') = (d' = Some d)"
| "dispatched d ev = False"

text \<open>The calls \<^verbatim>\<open>_process\<close> can make at all: to the sub-processors and to the node.\<close>

fun block_event :: "event \<Rightarrow> bool" where
  "block_event (AccountsRegister names d) = True"
| "block_event (AccountsDirty a) = True"
| "block_event (PostsCommentOp op d) = True"
| "block_event (PostsDeleteOp op) = True"
| "block_event (PostsCommentOptionsOp op) = True"
| "block_event (PaymentsOpTransfer op i n d) = True"
| "block_event (CustomOpProcessOps ops n d) = True"
| "block_event (HivedGetVirtualOperations n) = True"
| "block_event (VotesEffectiveCommentVoteOp k v d) = True"
| "block_event (PostsCommentPayoutOp ops d) = True"
| "block_event ev = False"

text \<open>
  What a stretch of \<^verbatim>\<open>_process\<close> after the registration does to the state, seen from
  outside: the head date, the table and the staged headers stay, and the trace grows by
  dispatched calls.
\<close>

definition during :: "string \<Rightarrow> 'w state \<Rightarrow> 'w state \<Rightarrow> bool" where
  "during d s s' =
     (head_block_date s' = head_block_date s \<and> hive_blocks s' = hive_blocks s \<and>
      blocks_to_flush s' = blocks_to_flush s \<and>
      (\<exists>evs. trace s' = trace s @ evs \<and> list_all (dispatched d) evs))"

text \<open>A call that carries a date carries the date \<open>d\<close>.\<close>

fun dated :: "string \<Rightarrow> event \<Rightarrow> bool" where
  "dated d (AccountsRegister names d') = (d' = Some d)"
| "dated d (PostsCommentOp op d') = (d' = Some d)"
| "dated d (PaymentsOpTransfer op i n d') = (d' = Some d)"
| "dated d (CustomOpProcessOps ops n d') = (d' = Some d)"
| "dated d (VotesEffectiveCommentVoteOp k v d') = (d' = Some d)"
| "dated d (PostsCommentPayoutOp ops d') = (d' = Some d)"
| "dated d ev = True"

text \<open>
  Block 11, in which \<^verbatim>\<open>alice\<close> is created and comments at once, and a node whose
  virtual operations for any block are one effective comment vote.
\<close>

definition alice_comment :: pyval where
  "alice_comment = PDict [(''author'', PStr ''alice''), (''permlink'', PStr ''hello'')]"

definition block_11 :: block where
  "block_11 =
     \<lparr>block_id = ''0000000b1234567890abcdef1234567890abcdef'',
      previous = ''0000000a1234567890abcdef1234567890abcdef'',
      timestamp = ''2016-03-24T16:05:33'',
      transactions =
        [\<lparr>operations =
            [\<lparr>op_type = ''account_create_operation'',
              op_value = PDict [(''new_account_name'', PStr ''alice'')]\<rparr>,
             \<lparr>op_type = ''comment_operation'', op_value = alice_comment\<rparr>]\<rparr>]\<rparr>"

definition voting :: "unit env" where
  "voting = quiet\<lparr>hived_get_virtual_operations := (\<lambda>n w. (Inr [vote_vop], w))\<rparr>"

text \<open>The state of a fresh process after block 10.\<close>

definition after_10 :: "unit state" where
  "after_10 =
     fresh\<lparr>blocks_to_flush :=
              [\<lparr>h_num = 10, h_hash = block_id block_10, h_prev = previous block_10, h_txs = 0,
                h_ops = 0, h_date = timestamp block_10\<rparr>],
           head_block_date := Some (timestamp block_10),
           trace := [AccountsRegister {} (Some (timestamp block_10))]\<rparr>"



text \<open>
  A database with the blocks 10, 11 and 12, and a node that agrees with it up to block
  \<open>k\<close>, has other blocks above \<open>k\<close>, and reports \<open>lib\<close> as last irreversible block.
\<close>

definition hash_of :: "int \<Rightarrow> string" where
  "hash_of n =
     (if n = 10 then ''0000000a'' else if n = 11 then ''0000000b''
      else if n = 12 then ''0000000c'' else ''00000009'')"

definition row_of :: "int \<Rightarrow> header" where
  "row_of n = \<lparr>h_num = n, h_hash = hash_of n, h_prev = hash_of (n - 1), h_txs = 0, h_ops = 0,
               h_date = ''2016-03-24T16:05:00''\<rparr>"

definition with_12 :: "unit state" where
  "with_12 = fresh\<lparr>hive_blocks := [row_of 10, row_of 11, row_of 12]\<rparr>"

definition upstream :: "int \<Rightarrow> int \<Rightarrow> unit env" where
  "upstream k lib =
     quiet\<lparr>steem_get_block :=
             (\<lambda>n w. (Inr (PDict [(''block_id'',
                                   PStr (if n \<le> k then hash_of n else ''ffffffff''))]), w)),
           steem_last_irreversible := (\<lambda>w. (Inr lib, w))\<rparr>"




section \<open>Properties\<close>

subsection \<open>Counters\<close>

lemma map_of_merge_items:
  "distinct (map fst od2) \<Longrightarrow>
   map_of (merge_items od1 od2) k =
     (case map_of od2 k of
        None \<Rightarrow> map_of od1 k
      | Some v \<Rightarrow> (case map_of od1 k of None \<Rightarrow> Some v | Some c \<Rightarrow> Some (c + v)))"
proof (induction od2 arbitrary: od1)
  case Nil
  then show ?case by simp
next
  case (Cons p od2)
  obtain k' v' where p: "p = (k', v')" by (cases p)
  from Cons.prems p have d: "distinct (map fst od2)" and nk: "k' \<notin> fst ` set od2" by auto
  from nk have none: "map_of od2 k' = None" by (simp add: map_of_eq_None_iff)
  show ?case
    using Cons.IH [OF d] none
    by (auto simp: p update_conv' split: option.splits)
qed

text \<open>
  C10. For a counters dict \<open>od1\<close> and a dict \<open>od2\<close> (its keys are distinct, as in any
  dict), the count of \<^verbatim>\<open>merge_ops_stats(od1, od2)\<close> at a key is the sum of the two counts
  when both have the key, the count of \<open>od2\<close> when only \<open>od2\<close> has it, and the count of
  \<open>od1\<close> when only \<open>od1\<close> has it; with \<^verbatim>\<open>None\<close> for \<open>od2\<close> the result is \<open>od1\<close>.
\<close>

theorem merge_ops_stats_counts:
  assumes "distinct (map fst od2)"
  shows "map_of (merge_ops_stats od1 (Some od2)) k =
           (case (map_of od1 k, map_of od2 k) of
              (Some a, Some b) \<Rightarrow> Some (a + b)
            | (None, Some b) \<Rightarrow> Some b
            | (Some a, None) \<Rightarrow> Some a
            | (None, None) \<Rightarrow> None)
         \<and> merge_ops_stats od1 None = od1"
  using map_of_merge_items [OF assms, of od1 k]
  by (simp add: merge_ops_stats_def split: option.splits)

theorem merge_ops_stats_counts_witness:
  "distinct (map fst [(''vote_operation'', 5 :: int), (''follow'', 7)])
   \<and> map_of (merge_ops_stats [(''comment_operation'', 1), (''vote_operation'', 2)]
               (Some [(''vote_operation'', 5), (''follow'', 7)])) ''vote_operation'' = Some 7
   \<and> merge_ops_stats [(''comment_operation'', 1), (''vote_operation'', 2)] None
       = [(''comment_operation'', 1), (''vote_operation'', 2)]"
  using merge_ops_stats_counts
    [of "[(''vote_operation'', 5), (''follow'', 7)]"
        "[(''comment_operation'', 1), (''vote_operation'', 2)]" "''vote_operation''"]
  by simp

subsection \<open>The virtual-operations preparer\<close>

lemma classify_vop_vote:
  "op_type vop = ''effective_comment_vote_operation'' \<Longrightarrow> \<exists>e. classify_vop vop = Inl e"
  by (auto simp: classify_vop_def Let_def split: sum.splits)

lemma prepare_vops_loop_vote:
  "\<exists>vop \<in> set vops. op_type vop = ''effective_comment_vote_operation'' \<Longrightarrow>
   \<exists>e. prepare_vops_loop d vops = Inl e"
proof (induction vops arbitrary: d)
  case Nil
  then show ?case by simp
next
  case (Cons vop vops)
  show ?case
  proof (cases "classify_vop vop")
    case (Inl e)
    then show ?thesis by simp
  next
    case (Inr r)
    with classify_vop_vote [of vop]
    have "op_type vop \<noteq> ''effective_comment_vote_operation''" by auto
    with Cons.prems
    have "\<exists>vop \<in> set vops. op_type vop = ''effective_comment_vote_operation''" by auto
    from Cons.IH [OF this] Inr show ?thesis by (auto split: option.splits)
  qed
qed

text \<open>
  Whatever else the list holds, \<^verbatim>\<open>prepare_vops\<close> raises as soon as the list has an
  \<^verbatim>\<open>effective_comment_vote_operation\<close>: it never returns the two outputs for such a list.
\<close>

lemma prepare_vops_vote_raises:
  "\<exists>vop \<in> set vops. op_type vop = ''effective_comment_vote_operation'' \<Longrightarrow>
   \<exists>e. prepare_vops vops date = Inl e"
  using prepare_vops_loop_vote [of vops "[]"] by (auto simp: prepare_vops_def)

lemma prepare_vops_vote_vop:
  "prepare_vops [vote_vop] date = Inl (AttributeError ''append'')"
  by (simp add: prepare_vops_def vote_vop_def classify_vop_def key_of_def)

text \<open>
  C1. The claim: \<^verbatim>\<open>prepare_vops\<close> is total, and every
  \<^verbatim>\<open>effective_comment_vote_operation\<close> yields \<^verbatim>\<open>{pending_payout}\<close> under its
  \<^verbatim>\<open>author/permlink\<close> key and is appended to the effective-votes list. The code on a list
  of one well-formed \<^verbatim>\<open>effective_comment_vote_operation\<close>: the call does not return, it
  raises \<^verbatim>\<open>AttributeError\<close> at \<^verbatim>\<open>vote_ops.append(vop)\<close>, for every head date.
\<close>

theorem prepare_vops_effective_vote_attribute_error:
  "prepare_vops [vote_vop] date = Inl (AttributeError ''append'')"
  by (rule prepare_vops_vote_vop)

subsection \<open>Staging a block header\<close>












subsection \<open>What processing one block does to the state\<close>

lemma during_refl: "during d s s"
  by (simp add: during_def)

lemma during_trans: "during d s s1 \<Longrightarrow> during d s1 s2 \<Longrightarrow> during d s s2"
  by (auto simp: during_def)

lemma during_date: "during d s s' \<Longrightarrow> head_block_date s' = head_block_date s"
  by (simp add: during_def)

lemma thn_cases:
  assumes "thn m f s = (r, s')"
  obtains e where "m s = (Inl e, s')" "r = Inl e"
  | x s1 where "m s = (Inr x, s1)" "f x s1 = (r, s')"
  using assms by (auto simp: thn_def split: prod.splits sum.splits)

lemma dispatch_during:
  assumes "dispatch env init num json_ops ixop s = (r, s')" "head_block_date s = Some d"
  shows "during d s s'"
  using assms
  unfolding dispatch_def Let_def during_def
  by (auto simp: thn_def ret_def get_date_def count_op_def dirty_def lift_def call_def answered_def
      split: prod.splits sum.splits if_splits)

lemma for_each_during:
  assumes body: "\<And>acc x s r s'. body acc x s = (r, s') \<Longrightarrow> head_block_date s = Some d \<Longrightarrow> during d s s'"
  shows "for_each body xs acc s = (r, s') \<Longrightarrow> head_block_date s = Some d \<Longrightarrow> during d s s'"
proof (induction xs arbitrary: acc s)
  case Nil
  then show ?case by (simp add: ret_def during_refl)
next
  case (Cons x xs)
  from Cons.prems(1) have "thn (body acc x) (for_each body xs) s = (r, s')" by simp
  then show ?case
  proof (cases rule: thn_cases)
    case (1 e)
    then show ?thesis using body Cons.prems(2) by blast
  next
    case (2 y s1)
    have a: "during d s s1" using body 2(1) Cons.prems(2) by blast
    then have "head_block_date s1 = Some d" using Cons.prems(2) by (simp add: during_def)
    from Cons.IH [OF 2(2) this] a show ?thesis by (rule during_trans [rotated])
  qed
qed

lemma custom_json_during:
  "custom_json env json_ops num s = (r, s') \<Longrightarrow> head_block_date s = Some d \<Longrightarrow> during d s s'"
  by (auto simp: custom_json_def thn_def get_date_def answered_def merge_stats_def during_def
      split: prod.splits sum.splits)

lemma comment_payout_during:
  "comment_payout env ops s = (r, s') \<Longrightarrow> head_block_date s = Some d \<Longrightarrow> during d s s'"
  by (auto simp: comment_payout_def thn_def get_date_def answered_def merge_stats_def during_def
      split: prod.splits sum.splits)

lemma vote_op_during:
  "vote_op env u kv s = (r, s') \<Longrightarrow> head_block_date s = Some d \<Longrightarrow> during d s s'"
  by (auto simp: vote_op_def thn_def get_date_def call_def answered_def during_def
      split: prod.splits sum.splits)

lemma get_vops_during:
  "get_vops env vops init num s = (r, s') \<Longrightarrow> during d s s'"
  by (auto simp: get_vops_def thn_def ret_def lift_def get_date_def answered_def during_def
      split: prod.splits sum.splits if_splits)

text \<open>The part of \<^verbatim>\<open>_process\<close> after \<^verbatim>\<open>Accounts.register\<close>.\<close>

lemma after_register:
  assumes run: "thn (for_each (dispatch env init num) ixops []) (\<lambda>json_ops.
     thn (if json_ops \<noteq> [] then custom_json env json_ops num else ret ()) (\<lambda>_.
     thn (get_vops env vops init num) (\<lambda>vs.
     thn (for_each (vote_op env) (fst vs) ()) (\<lambda>_.
     thn (if snd vs \<noteq> [] then comment_payout env (snd vs) else ret ()) (\<lambda>_.
     thn (set_date ts) (\<lambda>_.
     ret num)))))) s = (r, s')"
    and date: "head_block_date s = Some d"
  shows "hive_blocks s' = hive_blocks s \<and> blocks_to_flush s' = blocks_to_flush s \<and>
         (\<exists>evs. trace s' = trace s @ evs \<and> list_all (dispatched d) evs) \<and>
         (case r of Inl e \<Rightarrow> head_block_date s' = Some d
                  | Inr n \<Rightarrow> n = num \<and> head_block_date s' = Some ts)"
proof -
  have fin: "during d s s' \<Longrightarrow> r = Inl e \<Longrightarrow> ?thesis" for e
    using date by (auto simp: during_def)
  from run show ?thesis
  proof (cases rule: thn_cases)
    case (1 e)
    from for_each_during [OF dispatch_during 1(1) date] 1(2) show ?thesis by (rule fin)
  next
    case (2 json_ops s1)
    have d1: "during d s s1" by (rule for_each_during [OF dispatch_during 2(1) date])
    then have date1: "head_block_date s1 = Some d" using date by (simp add: during_def)
    from 2(2) show ?thesis
    proof (cases rule: thn_cases)
      case (1 e)
      then have "during d s1 s'"
        using custom_json_during [of env json_ops num s1 _ s' d] date1
        by (auto simp: ret_def split: if_splits)
      from during_trans [OF d1 this] 1(2) show ?thesis by (rule fin)
    next
      case (2 u s2)
      then have "during d s1 s2"
        using custom_json_during [of env json_ops num s1 _ s2 d] date1
        by (auto simp: ret_def during_refl split: if_splits)
      with d1 have d2: "during d s s2" by (rule during_trans)
      then have date2: "head_block_date s2 = Some d" using date by (simp add: during_def)
      from 2(2) show ?thesis
      proof (cases rule: thn_cases)
        case (1 e)
        from during_trans [OF d2 get_vops_during [OF 1(1)]] 1(2) show ?thesis by (rule fin)
      next
        case (2 vs s3)
        from during_trans [OF d2 get_vops_during [OF 2(1)]] have d3: "during d s s3" .
        then have date3: "head_block_date s3 = Some d" using date by (simp add: during_def)
        from 2(2) show ?thesis
        proof (cases rule: thn_cases)
          case (1 e)
          from during_trans [OF d3 for_each_during [OF vote_op_during 1(1) date3]] 1(2)
          show ?thesis by (rule fin)
        next
          case (2 u4 s4)
          from during_trans [OF d3 for_each_during [OF vote_op_during 2(1) date3]]
          have d4: "during d s s4" .
          then have date4: "head_block_date s4 = Some d" using date by (simp add: during_def)
          from 2(2) show ?thesis
          proof (cases rule: thn_cases)
            case (1 e)
            then have "during d s4 s'"
              using comment_payout_during [of env "snd vs" s4 _ s' d] date4
              by (auto simp: ret_def split: if_splits)
            from during_trans [OF d4 this] 1(2) show ?thesis by (rule fin)
          next
            case (2 u5 s5)
            then have "during d s4 s5"
              using comment_payout_during [of env "snd vs" s4 _ s5 d] date4
              by (auto simp: ret_def during_refl split: if_splits)
            with d4 have d5: "during d s s5" by (rule during_trans)
            from 2(2) have "r = Inr num" "s' = s5\<lparr>head_block_date := Some ts\<rparr>"
              by (auto simp: thn_def set_date_def ret_def)
            with d5 show ?thesis by (auto simp: during_def)
          qed
        qed
      qed
    qed
  qed
qed

lemma priv_push_state:
  "priv_push b s = (r, s') \<Longrightarrow>
     head_block_date s' = head_block_date s \<and> hive_blocks s' = hive_blocks s \<and>
     trace s' = trace s \<and> world s' = world s \<and>
     (case r of Inl e \<Rightarrow> s' = s
      | Inr n \<Rightarrow> \<exists>h. h_num h = n \<and> h_hash h = block_id b \<and>
                   blocks_to_flush s' = blocks_to_flush s @ [h])"
  by (auto simp: priv_push_def Let_def split: sum.splits)

text \<open>
  The whole of \<^verbatim>\<open>_process\<close>: nothing is written to \<^verbatim>\<open>hive_blocks\<close>; either no call is made
  at all, or the first call registers the collected names and every later call is a
  dispatched one; all dated calls carry the head date cached on entry, or the block's own
  timestamp when none was cached; on return the cached date is the block's timestamp.
\<close>

lemma priv_process_effect:
  assumes run: "priv_process env b vops init s = (r, s')"
  defines "d \<equiv> (case head_block_date s of None \<Rightarrow> timestamp b | Some d0 \<Rightarrow> d0)"
  shows "hive_blocks s' = hive_blocks s \<and>
         (trace s' = trace s \<and> (\<exists>e. r = Inl e) \<or>
          (\<exists>names rest. collect_names {} (all_ops b) = Inr names \<and>
             trace s' = trace s @ AccountsRegister names (Some d) # rest \<and>
             list_all (dispatched d) rest)) \<and>
         (\<forall>n. r = Inr n \<longrightarrow> head_block_date s' = Some (timestamp b))"
proof -
  from run have run': "thn (priv_push b) (\<lambda>num.
     thn (seed_date (timestamp b)) (\<lambda>_.
     thn (lift (collect_names {} (all_ops b))) (\<lambda>account_names.
     thn get_date (\<lambda>d.
     thn (call env (AccountsRegister account_names d)) (\<lambda>_.
     thn (for_each (dispatch env init num) (indexed_ops b) []) (\<lambda>json_ops.
     thn (if json_ops \<noteq> [] then custom_json env json_ops num else ret ()) (\<lambda>_.
     thn (get_vops env vops init num) (\<lambda>vs.
     thn (for_each (vote_op env) (fst vs) ()) (\<lambda>_.
     thn (if snd vs \<noteq> [] then comment_payout env (snd vs) else ret ()) (\<lambda>_.
     thn (set_date (timestamp b)) (\<lambda>_.
     ret num))))))))))) s = (r, s')"
    by (simp add: priv_process_def)
  then show ?thesis
  proof (cases rule: thn_cases)
    case (1 e)
    with priv_push_state [of b s "Inl e" s'] show ?thesis by simp
  next
    case (2 num s1)
    note push = priv_push_state [OF 2(1)]
    from 2(2) show ?thesis
    proof (cases rule: thn_cases)
      case (1 e)
      then show ?thesis by (simp add: seed_date_def)
    next
      case (2 u s2)
      then have s2: "s2 = s1\<lparr>head_block_date := Some d\<rparr>"
        using push by (auto simp: seed_date_def d_def split: if_splits)
      from 2(2) show ?thesis
      proof (cases rule: thn_cases)
        case (1 e)
        then show ?thesis using push s2 by (auto simp: lift_def)
      next
        case (2 names s3)
        then have names: "collect_names {} (all_ops b) = Inr names" and s3: "s3 = s2"
          by (auto simp: lift_def)
        from 2(2) show ?thesis
        proof (cases rule: thn_cases)
          case (1 e)
          then show ?thesis by (simp add: get_date_def)
        next
          case (2 dd s4)
          then have dd: "dd = Some d" and s4: "s4 = s2" using s2 s3 by (auto simp: get_date_def)
          from 2(2) show ?thesis
          proof (cases rule: thn_cases)
            case (1 e)
            then show ?thesis using push s2 s4 dd names
              by (auto simp: call_def answered_def split: prod.splits)
          next
            case (2 u5 s5)
            from 2(1) have s5: "trace s5 = trace s @ [AccountsRegister names (Some d)]"
              "hive_blocks s5 = hive_blocks s" "head_block_date s5 = Some d"
              using push s2 s4 dd by (auto simp: call_def answered_def split: prod.splits)
            from after_register [OF 2(2) s5(3)] s5 names show ?thesis
              by (auto split: sum.splits)
          qed
        qed
      qed
    qed
  qed
qed

lemma dispatched_block_event: "dispatched d ev \<Longrightarrow> block_event ev"
  by (cases ev) auto

lemma priv_process_block_events:
  assumes "priv_process env b vops init s = (r, s')"
  shows "hive_blocks s' = hive_blocks s \<and> (\<exists>evs. trace s' = trace s @ evs \<and> list_all block_event evs)"
proof -
  from priv_process_effect [OF assms] show ?thesis
    by (auto simp: list_all_iff) (blast intro: dispatched_block_event)+
qed

lemma process_blocks_block_events:
  "process_blocks env vops init blocks last_num s = (r, s') \<Longrightarrow>
   hive_blocks s' = hive_blocks s \<and> (\<exists>evs. trace s' = trace s @ evs \<and> list_all block_event evs)"
proof (induction blocks arbitrary: last_num s)
  case Nil
  then show ?case by simp
next
  case (Cons b blocks)
  obtain r1 s1 where p: "priv_process env b vops init s = (r1, s1)" by (cases "priv_process env b vops init s")
  note one = priv_process_block_events [OF p]
  show ?case
  proof (cases r1)
    case (Inl e)
    with Cons.prems p one show ?thesis by auto
  next
    case (Inr num)
    with Cons.prems p have "process_blocks env vops init blocks num s1 = (r, s')" by simp
    from Cons.IH [OF this] one show ?thesis by auto
  qed
qed


lemma dispatched_dated: "dispatched d ev \<Longrightarrow> dated d ev"
  by (cases ev) auto

subsection \<open>The example blocks, step by step\<close>

lemmas meth_defs = thn_def ret_def raise_def lift_def call_def answered_def get_date_def
  set_date_def seed_date_def count_op_def merge_stats_def dirty_def

lemma num_10: "py_int16 (take 8 (block_id block_10)) = Inr 10"
  by (simp add: block_10_def py_int16_def is_space_def digit_or_us_def hex_val_def hex_value_def
      nibble_def)

lemma num_11: "py_int16 (take 8 (block_id block_11)) = Inr 11"
  by (simp add: block_11_def py_int16_def is_space_def digit_or_us_def hex_val_def hex_value_def
      nibble_def)

lemma push_10:
  "priv_push block_10 s =
     (Inr 10, s\<lparr>blocks_to_flush := blocks_to_flush s @
        [\<lparr>h_num = 10, h_hash = block_id block_10, h_prev = previous block_10, h_txs = 0,
          h_ops = 0, h_date = timestamp block_10\<rparr>]\<rparr>)"
  using num_10 by (simp add: priv_push_def) (simp add: block_10_def)

lemma push_11:
  "priv_push block_11 s =
     (Inr 11, s\<lparr>blocks_to_flush := blocks_to_flush s @
        [\<lparr>h_num = 11, h_hash = block_id block_11, h_prev = previous block_11, h_txs = 1,
          h_ops = 2, h_date = timestamp block_11\<rparr>]\<rparr>)"
  using num_11 by (simp add: priv_push_def) (simp add: block_11_def)


lemma process_10:
  "priv_process quiet block_10 Map.empty True fresh = (Inr 10, after_10)"
  unfolding priv_process_def after_10_def
  apply (simp add: push_10 thn_def)
  apply (simp add: meth_defs fresh_def quiet_def block_10_def all_ops_def indexed_ops_def
      get_vops_def enumerate_eq_zip)
  done

lemma process_11_after_10:
  "priv_process quiet block_11 Map.empty True after_10 =
     (Inr 11,
      fresh\<lparr>blocks_to_flush :=
               [\<lparr>h_num = 10, h_hash = block_id block_10, h_prev = previous block_10, h_txs = 0,
                 h_ops = 0, h_date = timestamp block_10\<rparr>,
                \<lparr>h_num = 11, h_hash = block_id block_11, h_prev = previous block_11, h_txs = 1,
                 h_ops = 2, h_date = timestamp block_11\<rparr>],
            ops_stats := [(''account_create_operation'', 1), (''comment_operation'', 1)],
            head_block_date := Some (timestamp block_11),
            trace := [AccountsRegister {} (Some (timestamp block_10)),
                      AccountsRegister {PStr ''alice''} (Some (timestamp block_10)),
                      PostsCommentOp alice_comment (Some (timestamp block_10))]\<rparr>)"
  unfolding priv_process_def after_10_def
  apply (simp add: push_11 thn_def)
  apply (simp add: meth_defs fresh_def quiet_def block_11_def all_ops_def indexed_ops_def
      name_path_def set_add_def dispatch_def get_vops_def enumerate_eq_zip)
  done

subsection \<open>Pass ordering and the head date\<close>



text \<open>
  C3. Every dated call of \<^verbatim>\<open>_process\<close> for a block (the registration, the dispatched
  operations, the virtual-operation aggregates) carries the head date cached on entry,
  and the block's own timestamp when none is cached, which is the case of the first block
  a process handles. When \<^verbatim>\<open>_process\<close> returns, the cached date is the block's timestamp,
  so every dated call of the next \<^verbatim>\<open>_process\<close> carries the timestamp of this block.
\<close>

theorem head_date_rule:
  assumes "priv_process env b vops init s = (r, s')"
  shows "(\<exists>evs. trace s' = trace s @ evs \<and>
            list_all (dated (case head_block_date s of None \<Rightarrow> timestamp b | Some d \<Rightarrow> d)) evs)
       \<and> (\<forall>n. r = Inr n \<longrightarrow>
            head_block_date s' = Some (timestamp b) \<and>
            (\<forall>env2 b2 vops2 init2 r2 s2.
               priv_process env2 b2 vops2 init2 s' = (r2, s2) \<longrightarrow>
               (\<exists>evs. trace s2 = trace s' @ evs \<and> list_all (dated (timestamp b)) evs)))"
proof -
  have one: "\<exists>evs. trace t' = trace t @ evs \<and>
      list_all (dated (case head_block_date t of None \<Rightarrow> timestamp c | Some d \<Rightarrow> d)) evs"
    if "priv_process e c v i t = (q, t')" for e c v i t q t'
  proof -
    from priv_process_effect [OF that] show ?thesis
      by (auto simp: list_all_iff) (blast intro: dispatched_dated)+
  qed
  have two: "head_block_date s' = Some (timestamp b)" if "r = Inr n" for n
    using priv_process_effect [OF assms] that by simp
  show ?thesis
  proof (intro conjI allI impI)
    show "\<exists>evs. trace s' = trace s @ evs \<and>
        list_all (dated (case head_block_date s of None \<Rightarrow> timestamp b | Some d \<Rightarrow> d)) evs"
      by (rule one [OF assms])
  next
    fix n assume "r = Inr n"
    then show "head_block_date s' = Some (timestamp b)" by (rule two)
  next
    fix n env2 b2 vops2 init2 r2 s2
    assume r: "r = Inr n" and p: "priv_process env2 b2 vops2 init2 s' = (r2, s2)"
    from one [OF p] two [OF r]
    show "\<exists>evs. trace s2 = trace s' @ evs \<and> list_all (dated (timestamp b)) evs" by simp
  qed
qed

theorem head_date_rule_witness:
  "head_block_date fresh = None
   \<and> priv_process quiet block_10 Map.empty True fresh = (Inr 10, after_10)
   \<and> trace after_10 = [AccountsRegister {} (Some (timestamp block_10))]
   \<and> head_block_date after_10 = Some (timestamp block_10)
   \<and> trace (snd (priv_process quiet block_11 Map.empty True after_10))
       = [AccountsRegister {} (Some (timestamp block_10)),
          AccountsRegister {PStr ''alice''} (Some (timestamp block_10)),
          PostsCommentOp alice_comment (Some (timestamp block_10))]
   \<and> head_block_date (snd (priv_process quiet block_11 Map.empty True after_10))
       = Some (timestamp block_11)"
proof -
  note a = process_10
  from head_date_rule [OF a]
  have b: "head_block_date after_10 = Some (timestamp block_10)" by blast
  have f: "head_block_date fresh = None" by (simp add: fresh_def)
  have t: "trace after_10 = [AccountsRegister {} (Some (timestamp block_10))]"
    by (simp add: after_10_def)
  show ?thesis using a b f t by (simp add: process_11_after_10)
qed

subsection \<open>The batch driver\<close>

lemma thn_InrE:
  assumes "thn m f s = (Inr y, s')"
  obtains x s1 where "m s = (Inr x, s1)" "f x s1 = (Inr y, s')"
  using assms by (auto simp: thn_def split: prod.splits sum.splits)

lemma call_state:
  "call env ev s = (r, s') \<Longrightarrow>
   trace s' = trace s @ [ev] \<and> hive_blocks s' = hive_blocks s \<and>
   blocks_to_flush s' = blocks_to_flush s \<and> head_block_date s' = head_block_date s"
  by (auto simp: call_def answered_def split: prod.splits)

subsection \<open>The insert statement and the database that reads it\<close>

text \<open>
  A row written by \<open>values_row\<close> from a chain header is read back by the database as
  that header, and the statement of a buffer of such headers as the buffer.
\<close>

lemma expect_append: "expect p (p @ r) = Some r"
  by (simp add: expect_def)

lemma of_char_digit_char: "d < 10 \<Longrightarrow> (of_char (digit_char d) :: int) = 48 + int d"
proof -
  assume d: "d < 10"
  have "(of_char (char_of (48 + d)) :: int) = of_char (char_of (of_nat (48 + d) :: int))"
    by (simp only: char_of_nat)
  also have "\<dots> = of_nat (48 + d) mod 256" by (simp only: of_char_of)
  also have "\<dots> = 48 + int d" using d by simp
  finally show ?thesis by (simp add: digit_char_def)
qed

lemma is_digit_digit_char: "d < 10 \<Longrightarrow> is_digit (digit_char d)"
  by (simp add: is_digit_def of_char_digit_char)

lemma digit_char_val: "d < 10 \<Longrightarrow> (of_char (digit_char d) :: int) = 48 + int d"
  by (rule of_char_digit_char)

lemma digits_of_digits: "list_all is_digit (digits_of n)"
proof (induction n rule: digits_of.induct)
  case (1 n)
  show ?case
  proof (cases "n < 10")
    case True
    then show ?thesis by (subst digits_of.simps) (simp add: is_digit_digit_char)
  next
    case False
    with 1 show ?thesis by (subst digits_of.simps) (simp add: is_digit_digit_char)
  qed
qed

lemma digits_of_nonempty: "digits_of n \<noteq> []"
  by (subst digits_of.simps) simp

lemma digits_of_value:
  "foldl (\<lambda>a c. 10 * a + (of_char c - 48)) (0::int) (digits_of n) = int n"
proof (induction n rule: digits_of.induct)
  case (1 n)
  show ?case
  proof (cases "n < 10")
    case True
    then show ?thesis by (subst digits_of.simps) (simp add: digit_char_val)
  next
    case False
    with 1 have "foldl (\<lambda>a c. 10 * a + (of_char c - 48)) (0::int) (digits_of (n div 10)) = int (n div 10)"
      by simp
    with False show ?thesis
      by (subst digits_of.simps) (simp add: digit_char_val zdiv_int zmod_int)
  qed
qed

lemma sql_nat_digits:
  assumes "\<not> is_digit c"
  shows "sql_nat (digits_of n @ c # r) = Some (int n, c # r)"
proof -
  have d: "\<And>x. x \<in> set (digits_of n) \<Longrightarrow> is_digit x"
    using digits_of_digits [of n] by (simp only: list_all_iff)
  have tw: "takeWhile is_digit (c # r) = []" and dw: "dropWhile is_digit (c # r) = c # r"
    using assms by (simp_all only: takeWhile.simps dropWhile.simps if_False)
  have "takeWhile is_digit (digits_of n @ c # r) = digits_of n @ takeWhile is_digit (c # r)"
    by (rule takeWhile_append2) (rule d)
  then have t: "takeWhile is_digit (digits_of n @ c # r) = digits_of n"
    by (simp only: tw append_Nil2)
  have "dropWhile is_digit (digits_of n @ c # r) = dropWhile is_digit (c # r)"
    by (rule dropWhile_append2) (rule d)
  then have dr: "dropWhile is_digit (digits_of n @ c # r) = c # r"
    by (simp only: dw)
  show ?thesis
    unfolding sql_nat_def Let_def t dr
    by (simp only: digits_of_nonempty digits_of_value if_False)
qed

lemma not_digit_minus: "\<not> is_digit (CHR ''-'')"
  by (simp add: is_digit_def)

lemma digits_of_no_minus: "hd (digits_of n) \<noteq> CHR ''-''"
proof -
  have "\<forall>x \<in> set (digits_of n). is_digit x"
    using digits_of_digits [of n] by (simp add: list_all_iff)
  moreover have "hd (digits_of n) \<in> set (digits_of n)" by (simp add: digits_of_nonempty)
  ultimately have "is_digit (hd (digits_of n))" by blast
  with not_digit_minus show ?thesis by metis
qed

lemma sql_int_str:
  assumes "\<not> is_digit c"
  shows "sql_int (str_int i @ c # r) = Some (i, c # r)"
proof (cases "i < 0")
  case True
  then have "str_int i @ c # r = CHR ''-'' # (digits_of (nat (- i)) @ c # r)"
    by (simp add: str_int_def del: digits_of.simps)
  moreover have "sql_int (CHR ''-'' # (digits_of (nat (- i)) @ c # r)) = Some (- int (nat (- i)), c # r)"
    by (simp add: sql_int_def sql_nat_digits [OF assms] del: digits_of.simps)
  ultimately show ?thesis using True by (simp del: digits_of.simps)
next
  case False
  obtain d ds where ds: "digits_of (nat i) = d # ds"
    using digits_of_nonempty [of "nat i"] by (cases "digits_of (nat i)") (simp_all del: digits_of.simps)
  with digits_of_no_minus [of "nat i"] have m: "d \<noteq> CHR ''-''" by (simp del: digits_of.simps)
  from False have "str_int i @ c # r = digits_of (nat i) @ c # r"
    by (simp add: str_int_def del: digits_of.simps)
  moreover have "sql_int (digits_of (nat i) @ c # r) = sql_nat (digits_of (nat i) @ c # r)"
    unfolding ds using m by (simp add: sql_int_def del: digits_of.simps)
  ultimately show ?thesis using False
    by (simp add: sql_nat_digits [OF assms] del: digits_of.simps)
qed

lemma sql_chars_plain:
  assumes "quote \<notin> set t" "c \<noteq> quote"
  shows "sql_chars (t @ quote # c # r) = Some (t, c # r)"
  using assms
proof (induction t)
  case Nil
  then show ?case by simp
next
  case (Cons a t)
  then show ?case by (cases t) auto
qed

lemma sql_string_plain:
  assumes "quote \<notin> set t" "c \<noteq> quote"
  shows "sql_string (quote # t @ quote # c # r) = Some (t, c # r)"
  using sql_chars_plain [OF assms] by (simp add: sql_string_def)

lemma hex_val_quote: "hex_val quote = None"
  by (simp add: hex_val_def quote_def)

lemma is_hex_not_quote: "is_hex c \<Longrightarrow> c \<noteq> quote"
  using hex_val_quote by (auto simp: is_hex_def)

lemma is_digit_quote: "\<not> is_digit quote"
  by (simp add: is_digit_def quote_def)

lemma fits_quote: "fits p quote \<Longrightarrow> p = quote"
  by (simp add: fits_def is_digit_quote split: if_splits)

lemma pattern_no_quote: "quote \<notin> set ''dddd-dd-ddTdd:dd:dd''"
  by (simp add: quote_def)

lemma is_timestamp_plain: "is_timestamp d \<Longrightarrow> quote \<notin> set d"
proof
  assume ts: "is_timestamp d" and q: "quote \<in> set d"
  from q obtain i where i: "i < length d" "d ! i = quote" by (auto simp: in_set_conv_nth)
  from ts have len: "length ''dddd-dd-ddTdd:dd:dd'' = length d"
    and all: "\<forall>i < length d. fits (''dddd-dd-ddTdd:dd:dd'' ! i) (d ! i)"
    unfolding is_timestamp_def by (auto simp only: list_all2_conv_all_nth)
  from all i have "fits (''dddd-dd-ddTdd:dd:dd'' ! i) quote" by metis
  then have "''dddd-dd-ddTdd:dd:dd'' ! i = quote" by (rule fits_quote)
  moreover from i len have "''dddd-dd-ddTdd:dd:dd'' ! i \<in> set ''dddd-dd-ddTdd:dd:dd''"
    by (intro nth_mem) (simp only:)
  ultimately show False using pattern_no_quote by metis
qed

lemma chain_header_plain:
  assumes "chain_header b"
  shows "quote \<notin> set (h_hash b)" "quote \<notin> set (h_prev b)" "quote \<notin> set (h_date b)"
  using assms is_hex_not_quote is_timestamp_plain
  by (auto simp: chain_header_def list_all_iff)

lemma str_int_nat: "str_int (int n) = digits_of n"
  by (simp add: str_int_def del: digits_of.simps)

lemma expect_Cons: "expect [a] (a # r) = Some r" "expect [a, b] (a # b # r) = Some r"
  by (simp_all add: expect_def)

lemma header_eq:
  "\<lparr>h_num = h_num b, h_hash = h_hash b, h_prev = h_prev b, h_txs = h_txs b, h_ops = h_ops b,
     h_date = h_date b\<rparr> = (b :: header)"
  by simp

lemma sql_row_values_row:
  assumes "chain_header b"
  shows "sql_row (values_row b @ r) = Some (b, r)"
proof -
  note p = chain_header_plain [OF assms]
  have c: "\<not> is_digit (CHR '','')" "CHR '','' \<noteq> quote" "CHR '')'' \<noteq> quote"
    by (simp_all add: is_digit_def quote_def)
  show ?thesis
    unfolding sql_row_def values_row_def str_int_nat
    by (simp add: expect_Cons sql_int_str [OF c(1)] sql_nat_digits [OF c(1)]
        sql_string_plain [OF p(1) c(2)] sql_string_plain [OF p(2) c(2)]
        sql_string_plain [OF p(3) c(3)] del: digits_of.simps)
qed

lemma values_row_nonempty: "values_row b \<noteq> []"
  by (simp add: values_row_def)

lemma join_values_length: "length rows \<le> length (join sep (map values_row rows))"
proof (induction rows)
  case Nil
  show ?case by simp
next
  case (Cons b rows)
  have "1 \<le> length (values_row b)"
    using values_row_nonempty [of b] by (cases "values_row b") simp_all
  with Cons show ?case by (cases rows) simp_all
qed

lemma sql_rows_values:
  assumes "rows \<noteq> []" "list_all chain_header rows" "length rows \<le> n"
  shows "sql_rows n (join '','' (map values_row rows)) = Some rows"
  using assms
proof (induction rows arbitrary: n)
  case Nil
  then show ?case by simp
next
  case (Cons b rows)
  from Cons.prems obtain m where n: "n = Suc m" by (cases n) simp_all
  from Cons.prems have b: "chain_header b" by simp
  show ?case
  proof (cases rows)
    case Nil
    have "sql_row (values_row b @ []) = Some (b, [])" by (rule sql_row_values_row [OF b])
    then have "sql_row (values_row b) = Some (b, [])" by simp
    with Nil n show ?thesis by simp
  next
    case (Cons b' bs)
    let ?rest = "join '','' (map values_row rows)"
    from Cons have j: "join '','' (map values_row (b # rows)) = values_row b @ CHR '','' # ?rest"
      by simp
    have r: "sql_row (values_row b @ CHR '','' # ?rest) = Some (b, CHR '','' # ?rest)"
      by (rule sql_row_values_row [OF b])
    from Cons.prems Cons n have "sql_rows m ?rest = Some rows"
      by (intro Cons.IH) simp_all
    then show ?thesis unfolding j n by (simp add: r expect_Cons)
  qed
qed

lemma db_insert_blocks_values:
  assumes "rows \<noteq> []" "list_all chain_header rows" "distinct (map h_num (tbl @ rows))"
  shows "db_insert_blocks (insert_query @ join '','' (map values_row rows)) tbl = Inr (tbl @ rows)"
proof -
  have "sql_rows (length (join '','' (map values_row rows))) (join '','' (map values_row rows))
      = Some rows"
    by (rule sql_rows_values [OF assms(1,2) join_values_length])
  with assms(3) show ?thesis by (simp add: db_insert_blocks_def expect_append)
qed

lemma priv_flush_blocks_chain:
  assumes "blocks_to_flush s \<noteq> []"
    and "list_all chain_header (blocks_to_flush s)"
    and "distinct (map h_num (hive_blocks s @ blocks_to_flush s))"
  shows "priv_flush_blocks s =
           (Inr (),
            s\<lparr>trace := trace s @
                [DbQuery (insert_query @ join '','' (map values_row (blocks_to_flush s)))],
              hive_blocks := hive_blocks s @ blocks_to_flush s,
              blocks_to_flush := []\<rparr>)"
  by (simp add: priv_flush_blocks_def Let_def db_insert_blocks_values [OF assms])

lemma priv_flush_blocks_Inr:
  "priv_flush_blocks s = (Inr u, s') \<Longrightarrow>
   trace s' = trace s @
     [DbQuery (insert_query @ join '','' (map values_row (blocks_to_flush s)))] \<and>
   blocks_to_flush s' = []"
  by (auto simp: priv_flush_blocks_def Let_def split: sum.splits)

lemma flush_all_trace:
  assumes "flush_all env s = (Inr stats, s')"
  shows "trace s' = trace s @ [PostDataCacheFlush, TagsFlush, VotesFlush,
           DbQuery (insert_query @ join '','' (map values_row (blocks_to_flush s))),
           FollowFlush False, DbQuery ''COMMIT'']"
proof -
  from assms [unfolded flush_all_def] obtain u1 s1 u2 s2 u3 s3 u4 s4 u5 s5 u6 s6 where
    c1: "call env PostDataCacheFlush s = (Inr u1, s1)" and
    c2: "call env TagsFlush s1 = (Inr u2, s2)" and
    c3: "call env VotesFlush s2 = (Inr u3, s3)" and
    c4: "priv_flush_blocks s3 = (Inr u4, s4)" and
    c5: "call env (FollowFlush False) s4 = (Inr u5, s5)" and
    c6: "call env (DbQuery ''COMMIT'') s5 = (Inr u6, s6)" and
    c7: "get_ops_stats s6 = (Inr stats, s')"
    by (elim thn_InrE) blast
  from c7 have "s' = s6" by (simp add: get_ops_stats_def)
  with call_state [OF c1] call_state [OF c2] call_state [OF c3] priv_flush_blocks_Inr [OF c4]
    call_state [OF c5] call_state [OF c6]
  show ?thesis by simp
qed

lemma head_num_cong: "hive_blocks s' = hive_blocks s \<Longrightarrow> head_num s' = head_num s"
  by (simp add: head_num_def)

text \<open>
  C7. Whenever \<^verbatim>\<open>process_multi\<close> returns, the calls it has made are: \<^verbatim>\<open>START TRANSACTION\<close>,
  then the calls of the blocks (to the sub-processors and the node, none of them a
  flusher), then \<^verbatim>\<open>PostDataCache.flush\<close>, \<^verbatim>\<open>Tags.flush\<close>, \<^verbatim>\<open>Votes.flush\<close>, the insert of the
  staged headers, \<^verbatim>\<open>Follow.flush(trx=False)\<close> and \<^verbatim>\<open>COMMIT\<close>, in this order and once each.
\<close>

theorem flush_order:
  assumes "process_multi env blocks vops init s = (Inr stats, s')"
  shows "\<exists>evs staged.
           list_all block_event evs \<and>
           trace s' = trace s @ DbQuery ''START TRANSACTION'' # evs @
             [PostDataCacheFlush, TagsFlush, VotesFlush,
              DbQuery (insert_query @ join '','' (map values_row staged)),
              FollowFlush False, DbQuery ''COMMIT'']"
proof -
  from assms have "thn (call env (DbQuery ''START TRANSACTION''))
     (\<lambda>_ s. case process_blocks env vops init blocks 0 s of
          (Inl (e, last_num), s') \<Rightarrow> (Inl e, s'\<lparr>trace := trace s' @ [LogError (last_num + 1)]\<rparr>)
        | (Inr last_num, s') \<Rightarrow> flush_all env s') s = (Inr stats, s')"
    by (simp add: process_multi_def)
  then show ?thesis
  proof (cases rule: thn_cases)
    case (1 e)
    then show ?thesis by simp
  next
    case (2 u s1)
    obtain r2 s2 where pb: "process_blocks env vops init blocks 0 s1 = (r2, s2)"
      by (cases "process_blocks env vops init blocks 0 s1")
    with 2(2) obtain last_num where r2: "r2 = Inr last_num" and fl: "flush_all env s2 = (Inr stats, s')"
      by (cases r2) (auto split: prod.splits)
    from process_blocks_block_events [OF pb] obtain evs
      where evs: "trace s2 = trace s1 @ evs" "list_all block_event evs" by blast
    from call_state [OF 2(1)] evs flush_all_trace [OF fl] show ?thesis by auto
  qed
qed

lemma process_10_at:
  fixes s :: "unit state"
  assumes "head_block_date s = None"
  shows "priv_process quiet block_10 Map.empty True s =
     (Inr 10,
      s\<lparr>blocks_to_flush := blocks_to_flush s @
            [\<lparr>h_num = 10, h_hash = block_id block_10, h_prev = previous block_10, h_txs = 0,
              h_ops = 0, h_date = timestamp block_10\<rparr>],
        head_block_date := Some (timestamp block_10),
        trace := trace s @ [AccountsRegister {} (Some (timestamp block_10))]\<rparr>)"
  unfolding priv_process_def
  apply (simp add: push_10 thn_def)
  apply (simp add: assms meth_defs quiet_def block_10_def all_ops_def indexed_ops_def
      get_vops_def enumerate_eq_zip)
  done

lemma process_11_at:
  fixes s :: "unit state"
  assumes "head_block_date s = Some d" "ops_stats s = []"
  shows "priv_process quiet block_11 Map.empty True s =
     (Inr 11,
      s\<lparr>blocks_to_flush := blocks_to_flush s @
            [\<lparr>h_num = 11, h_hash = block_id block_11, h_prev = previous block_11, h_txs = 1,
              h_ops = 2, h_date = timestamp block_11\<rparr>],
        ops_stats := [(''account_create_operation'', 1), (''comment_operation'', 1)],
        head_block_date := Some (timestamp block_11),
        trace := trace s @ [AccountsRegister {PStr ''alice''} (Some d),
                            PostsCommentOp alice_comment (Some d)]\<rparr>)"
  unfolding priv_process_def
  apply (simp add: push_11 thn_def)
  apply (simp add: assms meth_defs quiet_def block_11_def all_ops_def indexed_ops_def
      name_path_def set_add_def dispatch_def get_vops_def enumerate_eq_zip)
  done

lemma flush_all_quiet:
  fixes s :: "unit state"
  assumes "blocks_to_flush s \<noteq> []" "list_all chain_header (blocks_to_flush s)"
    "distinct (map h_num (hive_blocks s @ blocks_to_flush s))"
  shows "flush_all quiet s =
     (Inr (ops_stats s),
      s\<lparr>blocks_to_flush := [],
        hive_blocks := hive_blocks s @ blocks_to_flush s,
        trace := trace s @ [PostDataCacheFlush, TagsFlush, VotesFlush,
                  DbQuery (insert_query @ join '','' (map values_row (blocks_to_flush s))),
                  FollowFlush False, DbQuery ''COMMIT'']\<rparr>)"
  using assms
  by (simp add: flush_all_def thn_def call_def answered_def quiet_def get_ops_stats_def
      priv_flush_blocks_chain)

lemma chain_header_10:
  "chain_header \<lparr>h_num = n, h_hash = block_id block_10, h_prev = previous block_10, h_txs = t,
     h_ops = k, h_date = timestamp block_10\<rparr>"
  by (simp add: chain_header_def block_10_def is_hex_def hex_val_def is_timestamp_def fits_def
      is_digit_def)

lemma chain_header_11:
  "chain_header \<lparr>h_num = n, h_hash = block_id block_11, h_prev = previous block_11, h_txs = t,
     h_ops = k, h_date = timestamp block_11\<rparr>"
  by (simp add: chain_header_def block_11_def is_hex_def hex_val_def is_timestamp_def fits_def
      is_digit_def)

lemma multi_10_11:
  "process_multi quiet [block_10, block_11] Map.empty True fresh
     = (Inr [(''account_create_operation'', 1), (''comment_operation'', 1)],
        fresh\<lparr>ops_stats := [(''account_create_operation'', 1), (''comment_operation'', 1)],
              head_block_date := Some (timestamp block_11),
              hive_blocks :=
                [\<lparr>h_num = 10, h_hash = block_id block_10, h_prev = previous block_10, h_txs = 0,
                  h_ops = 0, h_date = timestamp block_10\<rparr>,
                 \<lparr>h_num = 11, h_hash = block_id block_11, h_prev = previous block_11, h_txs = 1,
                  h_ops = 2, h_date = timestamp block_11\<rparr>],
              trace :=
                [DbQuery ''START TRANSACTION'',
                 AccountsRegister {} (Some (timestamp block_10)),
                 AccountsRegister {PStr ''alice''} (Some (timestamp block_10)),
                 PostsCommentOp alice_comment (Some (timestamp block_10)),
                 PostDataCacheFlush, TagsFlush, VotesFlush,
                 DbQuery (insert_query @ join '','' (map values_row
                   [\<lparr>h_num = 10, h_hash = block_id block_10, h_prev = previous block_10,
                     h_txs = 0, h_ops = 0, h_date = timestamp block_10\<rparr>,
                    \<lparr>h_num = 11, h_hash = block_id block_11, h_prev = previous block_11,
                     h_txs = 1, h_ops = 2, h_date = timestamp block_11\<rparr>])),
                 FollowFlush False, DbQuery ''COMMIT'']\<rparr>)"
  unfolding process_multi_def
  apply (simp add: thn_def call_def answered_def quiet_def [symmetric])
  apply (simp add: quiet_def)
  apply (simp add: quiet_def [symmetric] process_10_at process_11_at flush_all_quiet fresh_def
      chain_header_10 chain_header_11)
  done

theorem flush_order_witness:
  "fst (process_multi quiet [block_10, block_11] Map.empty True fresh)
     = Inr [(''account_create_operation'', 1), (''comment_operation'', 1)]
   \<and> trace (snd (process_multi quiet [block_10, block_11] Map.empty True fresh))
     = [DbQuery ''START TRANSACTION'',
        AccountsRegister {} (Some (timestamp block_10)),
        AccountsRegister {PStr ''alice''} (Some (timestamp block_10)),
        PostsCommentOp alice_comment (Some (timestamp block_10)),
        PostDataCacheFlush, TagsFlush, VotesFlush,
        DbQuery (insert_query @ join '','' (map values_row
          [\<lparr>h_num = 10, h_hash = block_id block_10, h_prev = previous block_10, h_txs = 0,
            h_ops = 0, h_date = timestamp block_10\<rparr>,
           \<lparr>h_num = 11, h_hash = block_id block_11, h_prev = previous block_11, h_txs = 1,
            h_ops = 2, h_date = timestamp block_11\<rparr>])),
        FollowFlush False, DbQuery ''COMMIT'']"
  using flush_order [OF multi_10_11]
  by (simp add: multi_10_11)

lemma priv_process_num:
  assumes "priv_process env b vops init s = (Inr n, s')"
  shows "py_int16 (take 8 (block_id b)) = Inr n"
proof -
  from assms [unfolded priv_process_def] obtain num s1 t where
    p: "priv_push b s = (Inr num, s1)" and r: "ret num t = (Inr n, s')"
    by (elim thn_InrE) blast
  from r have "n = num" by (simp add: ret_def)
  with p show ?thesis by (auto simp: priv_push_def Let_def split: sum.splits)
qed

text \<open>
  What \<^verbatim>\<open>last_num\<close> holds when the loop of \<^verbatim>\<open>process_multi\<close> is left by an exception: the
  number of the block before the offending one, and the initial value when the offending
  block is the first of the batch.
\<close>

lemma process_blocks_returns:
  "process_blocks env vops init blocks l s = (Inr last_num, s') \<Longrightarrow>
   (blocks = [] \<and> last_num = l) \<or>
   (blocks \<noteq> [] \<and> py_int16 (take 8 (block_id (last blocks))) = Inr last_num)"
proof (induction blocks arbitrary: l s)
  case Nil
  then show ?case by simp
next
  case (Cons b blocks)
  then obtain num s1 where p: "priv_process env b vops init s = (Inr num, s1)"
    and rest: "process_blocks env vops init blocks num s1 = (Inr last_num, s')"
    by (auto split: prod.splits sum.splits)
  from Cons.IH [OF rest] priv_process_num [OF p] show ?case by auto
qed

lemma process_blocks_raises:
  "process_blocks env vops init blocks l s = (Inl (e, last_num), s') \<Longrightarrow>
   \<exists>pre b post s1. blocks = pre @ b # post \<and>
      process_blocks env vops init pre l s = (Inr last_num, s1) \<and>
      priv_process env b vops init s1 = (Inl e, s')"
proof (induction blocks arbitrary: l s)
  case Nil
  then show ?case by simp
next
  case (Cons b blocks)
  obtain r1 s1 where p: "priv_process env b vops init s = (r1, s1)"
    by (cases "priv_process env b vops init s")
  show ?case
  proof (cases r1)
    case (Inl e1)
    with Cons.prems p have "e1 = e" "last_num = l" "s1 = s'" by auto
    with p Inl have "b # blocks = [] @ b # blocks \<and>
       process_blocks env vops init [] l s = (Inr last_num, s) \<and>
       priv_process env b vops init s = (Inl e, s')" by simp
    then show ?thesis by blast
  next
    case (Inr num)
    with Cons.prems p have "process_blocks env vops init blocks num s1 = (Inl (e, last_num), s')"
      by simp
    from Cons.IH [OF this] obtain pre c post t where
      "blocks = pre @ c # post" "process_blocks env vops init pre num s1 = (Inr last_num, t)"
      "priv_process env c vops init t = (Inl e, s')" by blast
    with p Inr have "b # blocks = (b # pre) @ c # post \<and>
       process_blocks env vops init (b # pre) l s = (Inr last_num, t) \<and>
       priv_process env c vops init t = (Inl e, s')" by simp
    then show ?thesis by blast
  qed
qed

text \<open>
  A batch in which a block raises: the exception leaves \<^verbatim>\<open>process_multi\<close>; besides
  \<^verbatim>\<open>START TRANSACTION\<close> and the log line, only calls of the blocks were made (no flusher, no
  insert into \<^verbatim>\<open>hive_blocks\<close>, no \<^verbatim>\<open>COMMIT\<close>), and \<^verbatim>\<open>hive_blocks\<close> and \<^verbatim>\<open>head_num()\<close> are as
  before the call. The log line shows \<^verbatim>\<open>last_num + 1\<close>.
\<close>

lemma process_multi_raise_atomic:
  assumes start: "call env (DbQuery ''START TRANSACTION'') s = (Inr u, s1)"
    and loop: "process_blocks env vops init blocks 0 s1 = (Inl (e, last_num), s2)"
  shows "\<exists>evs s'. process_multi env blocks vops init s = (Inl e, s') \<and>
           trace s' = trace s @ DbQuery ''START TRANSACTION'' # evs @ [LogError (last_num + 1)] \<and>
           list_all block_event evs \<and>
           hive_blocks s' = hive_blocks s \<and> head_num s' = head_num s"
proof -
  from process_blocks_block_events [OF loop] obtain evs where
    evs: "trace s2 = trace s1 @ evs" "list_all block_event evs" "hive_blocks s2 = hive_blocks s1"
    by blast
  have "process_multi env blocks vops init s =
      (Inl e, s2\<lparr>trace := trace s2 @ [LogError (last_num + 1)]\<rparr>)"
    using start loop by (simp add: process_multi_def thn_def)
  with evs call_state [OF start] show ?thesis by (simp add: head_num_def)
qed

lemma process_10_voting:
  "priv_process voting block_10 Map.empty False s =
     (Inl (AttributeError ''append''),
      s\<lparr>blocks_to_flush := blocks_to_flush s @
            [\<lparr>h_num = 10, h_hash = block_id block_10, h_prev = previous block_10, h_txs = 0,
              h_ops = 0, h_date = timestamp block_10\<rparr>],
        head_block_date := Some (case head_block_date s of None \<Rightarrow> timestamp block_10 | Some d \<Rightarrow> d),
        trace := trace s @
          [AccountsRegister {} (Some (case head_block_date s of None \<Rightarrow> timestamp block_10 | Some d \<Rightarrow> d)),
           HivedGetVirtualOperations 10]\<rparr>)"
  unfolding priv_process_def
  apply (simp add: push_10 thn_def)
  apply (simp add: meth_defs voting_def quiet_def block_10_def all_ops_def indexed_ops_def
      get_vops_def enumerate_eq_zip prepare_vops_vote_vop split: option.split)
  done

text \<open>
  C2. The claim: when \<^verbatim>\<open>_process\<close> raises inside \<^verbatim>\<open>process_multi\<close>, the offending block
  height is logged, the exception is re-raised, and nothing is flushed or committed. The
  code on a batch whose only block is block 10, in live mode, with a node that reports an
  effective comment vote for it: the \<^verbatim>\<open>AttributeError\<close> leaves \<^verbatim>\<open>process_multi\<close> and nothing
  is flushed or committed, but the log line names block 1: \<^verbatim>\<open>last_num\<close> is still 0 when
  the first block of a batch raises.
\<close>

theorem process_multi_logs_block_1:
  "process_multi voting [block_10] Map.empty False fresh =
     (Inl (AttributeError ''append''),
      fresh\<lparr>blocks_to_flush :=
               [\<lparr>h_num = 10, h_hash = block_id block_10, h_prev = previous block_10, h_txs = 0,
                 h_ops = 0, h_date = timestamp block_10\<rparr>],
            head_block_date := Some (timestamp block_10),
            trace := [DbQuery ''START TRANSACTION'',
                      AccountsRegister {} (Some (timestamp block_10)),
                      HivedGetVirtualOperations 10,
                      LogError 1]\<rparr>)"
  unfolding process_multi_def
  apply (simp add: thn_def call_def answered_def process_10_voting)
  apply (simp add: voting_def quiet_def fresh_def)
  done

subsection \<open>Flushing the staged headers\<close>

text \<open>
  C8, as amended. For every staging buffer of chain headers (\<^verbatim>\<open>hash\<close> and \<^verbatim>\<open>prev\<close>
  hexadecimal, \<^verbatim>\<open>date\<close> a timestamp) that is not empty and whose nums are distinct from
  each other and from those of \<^verbatim>\<open>hive_blocks\<close>, \<^verbatim>\<open>_flush_blocks\<close> sends one insert statement
  that lists all staged headers in the order they were staged, the rows are appended to
  \<^verbatim>\<open>hive_blocks\<close> in that order, and the buffer is empty afterwards.
\<close>

theorem flush_blocks_staging_order:
  assumes "blocks_to_flush s \<noteq> []"
    and "list_all chain_header (blocks_to_flush s)"
    and "distinct (map h_num (hive_blocks s @ blocks_to_flush s))"
  shows "priv_flush_blocks s =
           (Inr (),
            s\<lparr>trace := trace s @
                [DbQuery (insert_query @ join '','' (map values_row (blocks_to_flush s)))],
              hive_blocks := hive_blocks s @ blocks_to_flush s,
              blocks_to_flush := []\<rparr>)"
  using assms by (rule priv_flush_blocks_chain)

lemma staged_10_11:
  "snd (priv_push block_11 (snd (priv_push block_10 (fresh\<lparr>hive_blocks := [row_of 9]\<rparr>)))) =
     fresh\<lparr>hive_blocks := [row_of 9],
           blocks_to_flush :=
             [\<lparr>h_num = 10, h_hash = block_id block_10, h_prev = previous block_10, h_txs = 0,
               h_ops = 0, h_date = timestamp block_10\<rparr>,
              \<lparr>h_num = 11, h_hash = block_id block_11, h_prev = previous block_11, h_txs = 1,
               h_ops = 2, h_date = timestamp block_11\<rparr>]\<rparr>"
  by (simp add: push_10 push_11 fresh_def)

theorem flush_blocks_staging_order_witness:
  "blocks_to_flush (snd (priv_push block_11 (snd (priv_push block_10
      (fresh\<lparr>hive_blocks := [row_of 9]\<rparr>))))) \<noteq> []
   \<and> list_all chain_header (blocks_to_flush (snd (priv_push block_11 (snd (priv_push block_10
      (fresh\<lparr>hive_blocks := [row_of 9]\<rparr>))))))
   \<and> distinct (map h_num
        (hive_blocks (snd (priv_push block_11 (snd (priv_push block_10
           (fresh\<lparr>hive_blocks := [row_of 9]\<rparr>))))) @
         blocks_to_flush (snd (priv_push block_11 (snd (priv_push block_10
           (fresh\<lparr>hive_blocks := [row_of 9]\<rparr>)))))))
   \<and> priv_flush_blocks (snd (priv_push block_11 (snd (priv_push block_10
        (fresh\<lparr>hive_blocks := [row_of 9]\<rparr>))))) =
       (Inr (),
        fresh\<lparr>hive_blocks :=
                [row_of 9,
                 \<lparr>h_num = 10, h_hash = block_id block_10, h_prev = previous block_10,
                   h_txs = 0, h_ops = 0, h_date = timestamp block_10\<rparr>,
                 \<lparr>h_num = 11, h_hash = block_id block_11, h_prev = previous block_11,
                   h_txs = 1, h_ops = 2, h_date = timestamp block_11\<rparr>],
              trace :=
                [DbQuery (insert_query @
                   values_row \<lparr>h_num = 10, h_hash = block_id block_10,
                     h_prev = previous block_10, h_txs = 0, h_ops = 0,
                     h_date = timestamp block_10\<rparr> @ '','' @
                   values_row \<lparr>h_num = 11, h_hash = block_id block_11,
                     h_prev = previous block_11, h_txs = 1, h_ops = 2,
                     h_date = timestamp block_11\<rparr>)]\<rparr>)"
proof -
  let ?s = "snd (priv_push block_11 (snd (priv_push block_10 (fresh\<lparr>hive_blocks := [row_of 9]\<rparr>))))"
  have a: "blocks_to_flush ?s \<noteq> []" unfolding staged_10_11 by simp
  have b: "list_all chain_header (blocks_to_flush ?s)"
    unfolding staged_10_11 by (simp add: chain_header_10 chain_header_11)
  have c: "distinct (map h_num (hive_blocks ?s @ blocks_to_flush ?s))"
    unfolding staged_10_11 by (simp add: row_of_def)
  show ?thesis
    using flush_blocks_staging_order [OF a b c] a b c
    unfolding staged_10_11 by (simp add: fresh_def)
qed

text \<open>
  The text of the statement in this run: the rows of block 10 and block 11, in this order.
\<close>

lemma values_row_10:
  "values_row \<lparr>h_num = 10, h_hash = block_id block_10, h_prev = previous block_10, h_txs = 0,
     h_ops = 0, h_date = timestamp block_10\<rparr> =
   ''(10, '' @ [quote] @ ''0000000a1234567890abcdef1234567890abcdef'' @ [quote] @ '', '' @
   [quote] @ ''00000009ffffffffffffffffffffffffffffffff'' @ [quote] @ '', 0, 0, '' @
   [quote] @ ''2016-03-24T16:05:30'' @ [quote] @ '')''"
  by (simp add: values_row_def str_int_def digit_char_def block_10_def char_of_eq_iff)

text \<open>
  C8 as the claim states it fails on the buffer staged by \<^verbatim>\<open>_push\<close> of block 11 and then of
  block 10: the flush succeeds and writes the row of block 11 before the row of block 10.
\<close>

theorem flush_blocks_not_ascending:
  "fst (priv_flush_blocks (snd (priv_push block_10 (snd (priv_push block_11 fresh))))) = Inr ()
   \<and> map h_num (hive_blocks
        (snd (priv_flush_blocks (snd (priv_push block_10 (snd (priv_push block_11 fresh)))))))
       = [11, 10]
   \<and> \<not> sorted (map h_num (hive_blocks
        (snd (priv_flush_blocks (snd (priv_push block_10 (snd (priv_push block_11 fresh))))))))"
proof -
  let ?s = "snd (priv_push block_10 (snd (priv_push block_11 fresh)))"
  have s: "?s = fresh\<lparr>blocks_to_flush :=
             [\<lparr>h_num = 11, h_hash = block_id block_11, h_prev = previous block_11, h_txs = 1,
               h_ops = 2, h_date = timestamp block_11\<rparr>,
              \<lparr>h_num = 10, h_hash = block_id block_10, h_prev = previous block_10, h_txs = 0,
               h_ops = 0, h_date = timestamp block_10\<rparr>]\<rparr>"
    by (simp add: push_10 push_11 fresh_def)
  have "priv_flush_blocks ?s =
      (Inr (),
       ?s\<lparr>trace := trace ?s @
            [DbQuery (insert_query @ join '','' (map values_row (blocks_to_flush ?s)))],
          hive_blocks := hive_blocks ?s @ blocks_to_flush ?s,
          blocks_to_flush := []\<rparr>)"
    unfolding s
    by (rule priv_flush_blocks_chain) (simp_all add: chain_header_10 chain_header_11 fresh_def)
  then show ?thesis unfolding s by (simp add: fresh_def)
qed

text \<open>
  Outside these buffers the statement need not be one the database accepts. With nothing
  staged no row follows \<^verbatim>\<open>VALUES\<close>; with an apostrophe in a \<^verbatim>\<open>hash\<close> the string ends early.
  In both runs the database raises, and \<^verbatim>\<open>_flush_blocks\<close> leaves the buffer as it was.
\<close>

lemma sql_rows_empty: "sql_rows n [] = None"
  by (cases n) (simp_all add: sql_row_def expect_def)

lemma flush_empty_buffer:
  "blocks_to_flush s = [] \<Longrightarrow> \<exists>e s'. priv_flush_blocks s = (Inl e, s')"
  using expect_append [of insert_query "[]"]
  by (simp add: priv_flush_blocks_def db_insert_blocks_def Let_def sql_rows_empty)

lemma sql_row_quoted_hash:
  "sql_row (values_row \<lparr>h_num = 10, h_hash = ''0000000a'' @ [quote] @ ''1234'', h_prev = p,
     h_txs = 0, h_ops = 0, h_date = d\<rparr>) = None"
  by (simp add: values_row_def str_int_def digit_char_def sql_row_def expect_def sql_int_def
      sql_nat_def is_digit_def sql_string_def quote_def)

lemma flush_quoted_hash:
  assumes "blocks_to_flush s =
     [\<lparr>h_num = 10, h_hash = ''0000000a'' @ [quote] @ ''1234'', h_prev = p, h_txs = 0, h_ops = 0,
       h_date = d\<rparr>]"
  shows "priv_flush_blocks s =
     (Inl (Raised ''syntax error''),
      s\<lparr>trace := trace s @
        [DbQuery (insert_query @ join '','' (map values_row (blocks_to_flush s)))]\<rparr>)"
proof -
  define row where "row = values_row \<lparr>h_num = 10, h_hash = ''0000000a'' @ [quote] @ ''1234'',
     h_prev = p, h_txs = 0, h_ops = 0, h_date = d\<rparr>"
  have none: "sql_row row = None" unfolding row_def by (rule sql_row_quoted_hash)
  have "row \<noteq> []" unfolding row_def by (rule values_row_nonempty)
  then obtain m where "length row = Suc m" by (cases row) simp_all
  then have "sql_rows (length row) row = None" by (simp add: none)
  then have "db_insert_blocks (insert_query @ row) (hive_blocks s) = Inl (Raised ''syntax error'')"
    by (simp add: db_insert_blocks_def expect_append)
  moreover have "join '','' (map values_row (blocks_to_flush s)) = row"
    unfolding assms row_def by simp
  ultimately show ?thesis by (simp add: priv_flush_blocks_def Let_def)
qed

subsection \<open>Fork recovery\<close>




















lemma head_12: "head_num with_12 = 12"
  by (simp add: head_num_def max_num_def with_12_def row_of_def fresh_def)

lemma get_with_12:
  "hive_blocks s = [row_of 10, row_of 11, row_of 12] \<Longrightarrow> n \<in> {10, 11, 12} \<Longrightarrow>
   priv_get n s = (Inr \<lparr>r_num = n, r_date = ''2016-03-24T16:05:00'', r_hash = hash_of n\<rparr>, s)"
  by (auto simp: priv_get_def row_of_def)

lemma steem_upstream:
  fixes s :: "unit state"
  shows "steem_block_id (upstream k lib) n s =
   (Inr (PStr (if n \<le> k then hash_of n else ''ffffffff'')), s\<lparr>trace := trace s @ [SteemGetBlock n]\<rparr>)"
  by (simp add: steem_block_id_def thn_def answered_def lift_def upstream_def quiet_def)

lemma walk_10:
  "walk (upstream 10 lib) 12 12 [] with_12 =
     (Inr (10, [\<lparr>r_num = 12, r_date = ''2016-03-24T16:05:00'', r_hash = hash_of 12\<rparr>,
                \<lparr>r_num = 11, r_date = ''2016-03-24T16:05:00'', r_hash = hash_of 11\<rparr>]),
      with_12\<lparr>trace := [SteemGetBlock 12, SteemGetBlock 11, SteemGetBlock 10]\<rparr>)"
  by (simp add: get_with_12 steem_upstream with_12_def fresh_def hash_of_def)

lemma walk_12:
  "walk (upstream 12 lib) 12 12 [] with_12 =
     (Inr (12, []), with_12\<lparr>trace := [SteemGetBlock 12]\<rparr>)"
  by (simp add: get_with_12 steem_upstream with_12_def fresh_def hash_of_def)

lemma verify_agree:
  "verify_head (upstream 12 lib) with_12 = (Inr (), with_12\<lparr>trace := [SteemGetBlock 12]\<rparr>)"
  by (simp add: verify_head_def head_12 walk_12 del: walk.simps)

lemma verify_refused:
  "verify_head (upstream 10 5) with_12 =
     (Inl (AssertionError ''not proceeding until head is irreversible''),
      with_12\<lparr>trace := [SteemGetBlock 12, SteemGetBlock 11, SteemGetBlock 10,
                         SteemLastIrreversible]\<rparr>)"
  apply (simp add: verify_head_def head_12 walk_10 del: walk.simps)
  apply (simp add: thn_def answered_def raise_def upstream_def quiet_def with_12_def fresh_def)
  done

lemma pop_with:
  fixes s :: "unit state"
  assumes "head_num s = r_num b"
  shows "pop_block (upstream k lib) () b s =
     (Inr (),
      s\<lparr>hive_blocks := filter (\<lambda>r. h_num r \<noteq> r_num b) (hive_blocks s),
        trace := trace s @
          [DbSelectPostIds (r_date b),
           DbDeleteSince ''hive_notifs'' (r_date b),
           DbDeleteSince ''hive_subscriptions'' (r_date b),
           DbDeleteSince ''hive_roles'' (r_date b),
           DbDeleteSince ''hive_communities'' (r_date b),
           DbDeleteSince ''hive_feed_cache'' (r_date b),
           DbDeleteSince ''hive_reblogs'' (r_date b),
           DbDeleteSince ''hive_follows'' (r_date b),
           DbDeletePayments (r_num b), DbDeleteBlock (r_num b)]\<rparr>)"
  using assms
  by (simp add: pop_block_def Let_def thn_def assert_head_def answered_def call_def
      delete_since_def ret_def db_delete_block_def upstream_def quiet_def)

lemma last_irreversible_upstream:
  fixes s :: "unit state"
  shows "answered SteemLastIrreversible (steem_last_irreversible (upstream k lib)) s =
     (Inr lib, s\<lparr>trace := trace s @ [SteemLastIrreversible]\<rparr>)"
  by (simp add: answered_def upstream_def quiet_def)

lemma call_upstream:
  fixes s :: "unit state"
  shows "call (upstream k lib) ev s = (Inr (), s\<lparr>trace := trace s @ [ev]\<rparr>)"
  by (simp add: call_def answered_def upstream_def quiet_def)







text \<open>The calls of a recovery that pops the blocks 12 and 11, in the order they are made.\<close>

lemma verify_popped_trace:
  "trace (snd (verify_head (upstream 10 20) with_12)) =
     [SteemGetBlock 12, SteemGetBlock 11, SteemGetBlock 10, SteemLastIrreversible,
      DbQuery ''START TRANSACTION'',
      DbSelectPostIds ''2016-03-24T16:05:00'',
      DbDeleteSince ''hive_notifs'' ''2016-03-24T16:05:00'',
      DbDeleteSince ''hive_subscriptions'' ''2016-03-24T16:05:00'',
      DbDeleteSince ''hive_roles'' ''2016-03-24T16:05:00'',
      DbDeleteSince ''hive_communities'' ''2016-03-24T16:05:00'',
      DbDeleteSince ''hive_feed_cache'' ''2016-03-24T16:05:00'',
      DbDeleteSince ''hive_reblogs'' ''2016-03-24T16:05:00'',
      DbDeleteSince ''hive_follows'' ''2016-03-24T16:05:00'',
      DbDeletePayments 12, DbDeleteBlock 12,
      DbSelectPostIds ''2016-03-24T16:05:00'',
      DbDeleteSince ''hive_notifs'' ''2016-03-24T16:05:00'',
      DbDeleteSince ''hive_subscriptions'' ''2016-03-24T16:05:00'',
      DbDeleteSince ''hive_roles'' ''2016-03-24T16:05:00'',
      DbDeleteSince ''hive_communities'' ''2016-03-24T16:05:00'',
      DbDeleteSince ''hive_feed_cache'' ''2016-03-24T16:05:00'',
      DbDeleteSince ''hive_reblogs'' ''2016-03-24T16:05:00'',
      DbDeleteSince ''hive_follows'' ''2016-03-24T16:05:00'',
      DbDeletePayments 11, DbDeleteBlock 11,
      DbQuery ''COMMIT'']"
  apply (simp add: verify_head_def head_12 walk_10 del: walk.simps)
  apply (simp add: thn_def last_irreversible_upstream priv_pop_def call_upstream)
  apply (simp add: thn_def ret_def pop_with call_upstream head_num_def max_num_def with_12_def
      fresh_def row_of_def)
  done






end
